theory Spec2Isabelle
  imports Main "HOL-Library.Sublist"
begin

section \<open>Data model\<close>

text \<open>
  The records follow the structs of \<^verbatim>\<open>new1.cpp\<close> field by field. C++ \<^verbatim>\<open>int\<close> is modelled
  as \<open>int\<close>: none of the properties below depends on 32-bit wrap-around, and signed overflow
  is undefined behaviour in the source.
\<close>

datatype InsnType = BRANCH | STORE | LOAD | ARITHMETIC | NOP | SPLOOP | SPKERNEL | SPMASK | OTHER

record Instruction =
  type :: InsnType
  mnemonic :: string
  unit :: string
  delay_slots :: int
  predicate :: string
  operands :: string
  line_num :: int
  parallel :: bool

record ExecutePacket =
  instructions :: "Instruction list"
  cycles :: int
  ep_num :: int

record TranslationBlock =
  packets :: "ExecutePacket list"
  tb_id :: int
  max_cycles :: int
  start_label :: string
  start_ep_index :: int
  end_ep_index :: int

record SavedContext =
  remaining_delay :: int
  target_address :: string
  instruction_line :: int

record DeferredStore =
  ds_operands :: string
  ds_unit :: string
  ds_line_num :: int

text \<open>
  The simulator writes a line to the standard output whenever it executes (dispatches) a
  translation block. The model keeps these lines as a list of events, \<open>exec_log\<close>, the only
  part of the output stream the properties below look at.
\<close>

datatype event = Executing int

record VLIWSimulator =
  guest_code :: "ExecutePacket list"
  registers :: "(string \<times> int) list"
  translation_blocks :: "TranslationBlock list"
  saved_contexts :: "SavedContext list"
  current_tb_id :: int
  ILC :: int
  RILC :: int
  state :: int
  A1 :: int
  sploop_start_index :: int
  deferred_stores :: "DeferredStore list"
  exec_log :: "event list"

text \<open>
  Fields that the source declares and never assigns hold indeterminate values. They are not
  fixed by the code, so the model takes them from a parameter: \<open>U\<close> gives, for the id of a
  phase block, the three integers \<^verbatim>\<open>max_cycles\<close>, \<^verbatim>\<open>start_ep_index\<close> and \<^verbatim>\<open>end_ep_index\<close> that
  the phase translators leave unset, and \<open>u\<close> gives, for the position of a rebuilt Store,
  its unset \<^verbatim>\<open>delay_slots\<close> and \<^verbatim>\<open>parallel\<close>.
\<close>

type_synonym uninit_tb = "int \<Rightarrow> int \<times> int \<times> int"
type_synonym uninit_store = "nat \<Rightarrow> int \<times> bool"

definition VLIWSimulator_init :: VLIWSimulator where
  "VLIWSimulator_init =
     \<lparr>guest_code = [],
      registers = [(''A10'', 100), (''A2'', 0), (''A4'', 0), (''B1'', 5), (''B3'', 0)],
      translation_blocks = [], saved_contexts = [], current_tb_id = 0,
      ILC = 0, RILC = 0, state = 0, A1 = 0, sploop_start_index = - 1,
      deferred_stores = [], exec_log = []\<rparr>"

definition createInstruction ::
  "InsnType \<Rightarrow> string \<Rightarrow> string \<Rightarrow> int \<Rightarrow> string \<Rightarrow> int \<Rightarrow> string \<Rightarrow> bool \<Rightarrow> Instruction" where
  "createInstruction ty mn un delay ops line pred par =
     \<lparr>type = ty, mnemonic = mn, unit = un, delay_slots = delay, predicate = pred,
      operands = ops, line_num = line, parallel = par\<rparr>"

definition addEP :: "int \<Rightarrow> int \<Rightarrow> Instruction list \<Rightarrow> VLIWSimulator \<Rightarrow> VLIWSimulator" where
  "addEP n c insns s =
     s\<lparr>guest_code := guest_code s @ [\<lparr>instructions = insns, cycles = c, ep_num = n\<rparr>]\<rparr>"

section \<open>The constraint strategy: \<^verbatim>\<open>translateWithConstraint\<close>\<close>

text \<open>The first inner loop: the smallest delay among the Branches of a packet, from 1000.\<close>

definition min_delay_step :: "int \<Rightarrow> Instruction \<Rightarrow> int" where
  "min_delay_step m insn =
     (if type insn = BRANCH \<and> delay_slots insn < m then delay_slots insn else m)"

definition min_current_branch_delay :: "Instruction list \<Rightarrow> int" where
  "min_current_branch_delay insns = foldl min_delay_step 1000 insns"

text \<open>The second inner loop: one saved context per Branch, appended to the tracker.\<close>

definition branch_context :: "Instruction \<Rightarrow> SavedContext" where
  "branch_context insn =
     \<lparr>remaining_delay = delay_slots insn, target_address = operands insn,
      instruction_line = line_num insn\<rparr>"

definition push_context_step :: "SavedContext list \<Rightarrow> Instruction \<Rightarrow> SavedContext list" where
  "push_context_step sc insn = (if type insn = BRANCH then sc @ [branch_context insn] else sc)"

definition push_branch_contexts :: "SavedContext list \<Rightarrow> Instruction list \<Rightarrow> SavedContext list" where
  "push_branch_contexts sc insns = foldl push_context_step sc insns"

text \<open>The budget after one packet: subtract its cost, then clamp to the branch delay.\<close>

definition next_cycles :: "ExecutePacket \<Rightarrow> int \<Rightarrow> int" where
  "next_cycles ep cyc =
     (let m = min_current_branch_delay (instructions ep);
          cyc' = cyc - cycles ep
      in if m < 1000 \<and> m < cyc' then m else cyc')"

text \<open>
  The \<^verbatim>\<open>while\<close> loop, on the tuple of its variables: remaining cycles, packet index, the
  packets of the block and the tracker. The source compares the \<^verbatim>\<open>int\<close> index with the
  unsigned size of the stream, so a negative index fails the test like one past the end.
\<close>

function tb_loop ::
  "ExecutePacket list \<Rightarrow> int \<Rightarrow> int \<Rightarrow> ExecutePacket list \<Rightarrow> SavedContext list \<Rightarrow>
     int \<times> int \<times> ExecutePacket list \<times> SavedContext list" where
  "tb_loop gc cyc ep_index pk sc =
     (if 0 \<le> ep_index \<and> ep_index < int (length gc) \<and> cyc > 0 then
        (if next_cycles (gc ! nat ep_index) cyc \<le> 0
         then (next_cycles (gc ! nat ep_index) cyc, ep_index + 1, pk @ [gc ! nat ep_index],
               push_branch_contexts sc (instructions (gc ! nat ep_index)))
         else tb_loop gc (next_cycles (gc ! nat ep_index) cyc) (ep_index + 1)
                (pk @ [gc ! nat ep_index])
                (push_branch_contexts sc (instructions (gc ! nat ep_index))))
      else (cyc, ep_index, pk, sc))"
  by pat_completeness auto
termination
  by (relation "measure (\<lambda>(gc, cyc, ep_index, pk, sc). nat (int (length gc) - ep_index))") auto

declare tb_loop.simps [simp del]

definition translateWithConstraint ::
  "VLIWSimulator \<Rightarrow> int \<Rightarrow> int \<Rightarrow> TranslationBlock \<times> VLIWSimulator" where
  "translateWithConstraint s start_ep initial_cycles =
     (case tb_loop (guest_code s) initial_cycles start_ep [] (saved_contexts s) of
        (cyc, ep_index, pk, sc) \<Rightarrow>
          (\<lparr>packets = pk, tb_id = current_tb_id s, max_cycles = initial_cycles,
            start_label = [], start_ep_index = start_ep, end_ep_index = ep_index - 1\<rparr>,
           s\<lparr>saved_contexts := sc, current_tb_id := current_tb_id s + 1\<rparr>))"

definition min_remaining_step :: "int \<Rightarrow> SavedContext \<Rightarrow> int" where
  "min_remaining_step m ctx = (if remaining_delay ctx < m then remaining_delay ctx else m)"

definition getCyclesFromPrecedingTB :: "VLIWSimulator \<Rightarrow> int \<times> VLIWSimulator" where
  "getCyclesFromPrecedingTB s =
     (case saved_contexts s of
        [] \<Rightarrow> (1000, s)
      | c0 # _ \<Rightarrow>
          (foldl min_remaining_step (remaining_delay c0) (saved_contexts s),
           s\<lparr>saved_contexts := filter (\<lambda>ctx. \<not> remaining_delay ctx \<le> 0) (saved_contexts s)\<rparr>))"

definition getNextStartEP :: "VLIWSimulator \<Rightarrow> int" where
  "getNextStartEP s =
     (if translation_blocks s = [] then 0 else end_ep_index (last (translation_blocks s)) + 1)"

section \<open>The deferred-store strategy: \<^verbatim>\<open>translateEPWithDeferredStores\<close>\<close>

text \<open>
  The first loop splits the packet: a Store leaves its operands, unit and line in
  \<^verbatim>\<open>deferred_stores\<close>, any other instruction is copied to the output.
\<close>

definition deferred_store :: "Instruction \<Rightarrow> DeferredStore" where
  "deferred_store insn =
     \<lparr>ds_operands = operands insn, ds_unit = unit insn, ds_line_num = line_num insn\<rparr>"

definition defer_step ::
  "DeferredStore list \<times> Instruction list \<Rightarrow> Instruction \<Rightarrow> DeferredStore list \<times> Instruction list" where
  "defer_step acc insn =
     (case acc of (ds, translated_insns) \<Rightarrow>
        if type insn = STORE then (ds @ [deferred_store insn], translated_insns)
        else (ds, translated_insns @ [insn]))"

text \<open>
  The second loop rebuilds one instruction per deferred Store, from a default-initialised
  \<^verbatim>\<open>Instruction\<close>: type, mnemonic, unit, operands and line are assigned, the predicate stays the
  empty string, \<^verbatim>\<open>delay_slots\<close> and \<^verbatim>\<open>parallel\<close> stay unset (\<open>u j\<close> for the \<open>j\<close>-th Store).
\<close>

definition store_insn :: "uninit_store \<Rightarrow> nat \<Rightarrow> DeferredStore \<Rightarrow> Instruction" where
  "store_insn u j d =
     \<lparr>type = STORE, mnemonic = ''STW'', unit = ds_unit d, delay_slots = fst (u j),
      predicate = [], operands = ds_operands d, line_num = ds_line_num d, parallel = snd (u j)\<rparr>"

fun emit_deferred ::
  "uninit_store \<Rightarrow> nat \<Rightarrow> DeferredStore list \<Rightarrow> Instruction list \<Rightarrow> Instruction list" where
  "emit_deferred u j [] translated_insns = translated_insns"
| "emit_deferred u j (d # ds) translated_insns =
     emit_deferred u (Suc j) ds (translated_insns @ [store_insn u j d])"

definition translateEPWithDeferredStores ::
  "uninit_store \<Rightarrow> VLIWSimulator \<Rightarrow> ExecutePacket \<Rightarrow> VLIWSimulator \<times> ExecutePacket" where
  "translateEPWithDeferredStores u s ep =
     (case foldl defer_step ([], []) (instructions ep) of
        (ds, translated_insns) \<Rightarrow>
          (s\<lparr>deferred_stores := ds\<rparr>, ep\<lparr>instructions := emit_deferred u 0 ds translated_insns\<rparr>))"

text \<open>The packet transformation alone, written \<open>reorder\<close> in the specification.\<close>

definition reorder :: "uninit_store \<Rightarrow> ExecutePacket \<Rightarrow> ExecutePacket" where
  "reorder u ep = snd (translateEPWithDeferredStores u VLIWSimulator_init ep)"

section \<open>Phase translators\<close>

definition new_phase_tb :: "uninit_tb \<Rightarrow> VLIWSimulator \<Rightarrow> string \<Rightarrow> ExecutePacket list \<Rightarrow> TranslationBlock" where
  "new_phase_tb U s label pk =
     \<lparr>packets = pk, tb_id = current_tb_id s, max_cycles = fst (U (current_tb_id s)),
      start_label = label, start_ep_index = fst (snd (U (current_tb_id s))),
      end_ep_index = snd (snd (U (current_tb_id s)))\<rparr>"

definition translateNormalLoop :: "uninit_tb \<Rightarrow> VLIWSimulator \<Rightarrow> TranslationBlock \<times> VLIWSimulator" where
  "translateNormalLoop U s =
     (new_phase_tb U s ''LOOP_STATE_0''
        (map (\<lambda>i. guest_code s ! i) [0..<length (guest_code s)]),
      s\<lparr>current_tb_id := current_tb_id s + 1\<rparr>)"

definition translateKernelLoop :: "uninit_tb \<Rightarrow> VLIWSimulator \<Rightarrow> TranslationBlock \<times> VLIWSimulator" where
  "translateKernelLoop U s =
     (new_phase_tb U s ''LOOP_STATE_1''
        (map (\<lambda>i. guest_code s ! i)
           (filter (\<lambda>i. \<not> (sploop_start_index s \<ge> 0 \<and> int i < sploop_start_index s))
              [0..<length (guest_code s)])),
      s\<lparr>current_tb_id := current_tb_id s + 1\<rparr>)"

definition translateNestedProlog :: "uninit_tb \<Rightarrow> VLIWSimulator \<Rightarrow> TranslationBlock \<times> VLIWSimulator" where
  "translateNestedProlog U s =
     (new_phase_tb U s ''NESTED_STATE_0''
        (map (\<lambda>i. guest_code s ! i)
           (filter (\<lambda>i. i < length (guest_code s)) [0..<nat (sploop_start_index s)])),
      s\<lparr>current_tb_id := current_tb_id s + 1\<rparr>)"

text \<open>The two flags the kernel scan computes for a packet.\<close>

definition has_spmask :: "ExecutePacket \<Rightarrow> bool" where
  "has_spmask ep = list_ex (\<lambda>insn. type insn = SPMASK) (instructions ep)"

definition has_branch :: "ExecutePacket \<Rightarrow> bool" where
  "has_branch ep = list_ex (\<lambda>insn. type insn = BRANCH) (instructions ep)"

text \<open>
  The kernel scan over the packets from the start index on: a packet with a Branch ends the
  scan (\<^verbatim>\<open>break\<close>), a packet with an SPMASK is passed over (\<^verbatim>\<open>continue\<close>), any other packet
  is appended.
\<close>

fun nested_inner_scan :: "ExecutePacket list \<Rightarrow> ExecutePacket list \<Rightarrow> ExecutePacket list" where
  "nested_inner_scan [] pk = pk"
| "nested_inner_scan (ep # eps) pk =
     (if has_branch ep then pk
      else if has_spmask ep then nested_inner_scan eps pk
      else nested_inner_scan eps (pk @ [ep]))"

text \<open>
  The loop variable is unsigned and starts from the \<^verbatim>\<open>int\<close> start index: a negative index
  (the unset value \<open>-1\<close>) converts to a value beyond any stream size, and the loop body never
  runs.
\<close>

definition translateNestedInner :: "uninit_tb \<Rightarrow> VLIWSimulator \<Rightarrow> TranslationBlock \<times> VLIWSimulator" where
  "translateNestedInner U s =
     (new_phase_tb U s ''NESTED_STATE_1''
        (if sploop_start_index s < 0 then []
         else nested_inner_scan (drop (nat (sploop_start_index s)) (guest_code s)) []),
      s\<lparr>current_tb_id := current_tb_id s + 1\<rparr>)"

definition translateNestedOverlap :: "uninit_tb \<Rightarrow> VLIWSimulator \<Rightarrow> TranslationBlock \<times> VLIWSimulator" where
  "translateNestedOverlap U s =
     (new_phase_tb U s ''NESTED_STATE_2''
        (map (\<lambda>i. guest_code s ! i) [10..<length (guest_code s)]),
      s\<lparr>current_tb_id := current_tb_id s + 1\<rparr>)"

section \<open>Phase state machines\<close>

definition push_tb :: "TranslationBlock \<Rightarrow> VLIWSimulator \<Rightarrow> VLIWSimulator" where
  "push_tb tb s = s\<lparr>translation_blocks := translation_blocks s @ [tb]\<rparr>"

definition log_exec :: "nat \<Rightarrow> int \<Rightarrow> VLIWSimulator \<Rightarrow> VLIWSimulator" where
  "log_exec n i s = s\<lparr>exec_log := exec_log s @ replicate n (Executing i)\<rparr>"

text \<open>The search loops of state 2: the id of the first block with the label, else \<open>-1\<close>.\<close>

fun find_tb_id :: "string \<Rightarrow> TranslationBlock list \<Rightarrow> int" where
  "find_tb_id label [] = - 1"
| "find_tb_id label (tb # tbs) = (if start_label tb = label then tb_id tb else find_tb_id label tbs)"

definition translateSoftwarePipelinedLoop :: "uninit_tb \<Rightarrow> VLIWSimulator \<Rightarrow> VLIWSimulator" where
  "translateSoftwarePipelinedLoop U s =
     (if state s = 0 then
        (case translateNormalLoop U s of (tb, s1) \<Rightarrow>
           let s2 = log_exec 1 (tb_id tb) (push_tb tb s1);
               s3 = s2\<lparr>ILC := ILC s2 - 1\<rparr>
           in if ILC s3 > 0 then
                (case translateKernelLoop U (s3\<lparr>state := 1\<rparr>) of (tb1, s4) \<Rightarrow>
                   let s5 = push_tb tb1 s4;
                       s6 = log_exec (nat (ILC s5)) (tb_id tb1) s5
                   in s6\<lparr>ILC := 0, state := 0\<rparr>)
              else s3\<lparr>state := 0\<rparr>)
      else s)"

text \<open>The end of an outer iteration: reload ILC, decrement A1, choose the next state.\<close>

definition next_outer :: "VLIWSimulator \<Rightarrow> VLIWSimulator" where
  "next_outer s =
     (let s1 = s\<lparr>ILC := RILC s\<rparr>;
          s2 = s1\<lparr>A1 := A1 s1 - 1\<rparr>
      in if A1 s2 > 0 then s2\<lparr>state := 2\<rparr> else s2\<lparr>state := 0\<rparr>)"

text \<open>
  The head of state 2: look the overlap block up by its label, translate it only when the
  search finds none.
\<close>

definition overlap_lookup :: "uninit_tb \<Rightarrow> VLIWSimulator \<Rightarrow> int \<times> VLIWSimulator" where
  "overlap_lookup U s =
     (if find_tb_id ''NESTED_STATE_2'' (translation_blocks s) = - 1
      then (case translateNestedOverlap U s of (tb2, s1) \<Rightarrow> (tb_id tb2, push_tb tb2 s1))
      else (find_tb_id ''NESTED_STATE_2'' (translation_blocks s), s))"

definition translateNestedLoop :: "uninit_tb \<Rightarrow> VLIWSimulator \<Rightarrow> VLIWSimulator" where
  "translateNestedLoop U s =
     (if state s = 0 then
        (case translateNestedProlog U s of (tb0, s1) \<Rightarrow>
           let s2 = log_exec 1 (tb_id tb0) (push_tb tb0 s1);
               s3 = s2\<lparr>ILC := ILC s2 - 1\<rparr>
           in if ILC s3 > 0 then
                (case translateNestedInner U (s3\<lparr>state := 1\<rparr>) of (tb1, s4) \<Rightarrow>
                   let s5 = push_tb tb1 s4;
                       s6 = log_exec (nat (ILC s5)) (tb_id tb1) s5
                   in next_outer (s6\<lparr>ILC := 0\<rparr>))
              else next_outer s3)
      else if state s = 2 then
        (case overlap_lookup U s of (state2_tb_id, s1) \<Rightarrow>
           let s2 = log_exec 1 state2_tb_id s1;
               state0_tb_id = find_tb_id ''NESTED_STATE_0'' (translation_blocks s2);
               s3 = (if state0_tb_id \<noteq> - 1 then log_exec 1 state0_tb_id s2 else s2);
               s4 = s3\<lparr>ILC := ILC s3 - 1\<rparr>
           in if ILC s4 > 0 then
                (let state1_tb_id = find_tb_id ''NESTED_STATE_1'' (translation_blocks s4);
                     s5 = (if state1_tb_id \<noteq> - 1
                           then log_exec (nat (ILC s4)) state1_tb_id s4 else s4)
                 in next_outer (s5\<lparr>ILC := 0\<rparr>))
              else next_outer s4)
      else s)"

section \<open>Guest streams and the driver\<close>

definition parseGuestCode :: "VLIWSimulator \<Rightarrow> VLIWSimulator" where
  "parseGuestCode s =
     (let s1 = fold (\<lambda>i. addEP i 1 [createInstruction BRANCH ''B'' ''.S2'' 5 ''LOOP'' i [] False])
                 [1, 2, 3, 4, 5] s;
          s2 = addEP 6 1
                 [createInstruction ARITHMETIC ''SUB'' ''.D2'' 0 ''B1, 0x1, B1'' 6 ''[B1]'' False,
                  createInstruction BRANCH ''B'' ''.S1'' 5 ''LOOP'' 7 ''[B1]'' True] s1;
          s3 = addEP 7 1 [createInstruction BRANCH ''B'' ''.S2'' 5 ''B3'' 8 [] False] s2;
          s4 = fold (\<lambda>i. addEP i 1 [createInstruction NOP ''NOP'' [] 0 [] (9 + (i - 8)) [] False])
                 [8, 9, 10, 11] s3;
          s5 = addEP 12 1 [createInstruction ARITHMETIC ''MV'' ''.L1'' 0 ''A10, A2'' 12 [] False] s4
      in addEP 13 1 [createInstruction ARITHMETIC ''ADD'' ''.L1'' 0 ''A4, A2, A4'' 13 [] False] s5)"

definition parseSoftwarePipelinedLoop :: "VLIWSimulator \<Rightarrow> VLIWSimulator" where
  "parseSoftwarePipelinedLoop s =
     (let s0 = s\<lparr>guest_code := [], sploop_start_index := - 1\<rparr>;
          s1 = addEP 1 1 [createInstruction ARITHMETIC ''MVK'' ''.S'' 0 ''8, A0'' 1 [] False] s0;
          s2 = addEP 2 1 [createInstruction ARITHMETIC ''MVC'' ''.S'' 0 ''A0, ILC'' 2 [] False] s1;
          s3 = addEP 3 3 [createInstruction NOP ''NOP'' [] 0 ''3'' 3 [] False] s2;
          s4 = addEP 4 1 [createInstruction SPLOOP ''SPLOOP'' [] 0 ''1'' 4 [] False] s3;
          s5 = s4\<lparr>sploop_start_index := 4\<rparr>;
          s6 = addEP 5 1 [createInstruction LOAD ''LDW'' ''.D'' 4 ''*A1++, A2'' 5 [] False] s5;
          s7 = addEP 6 4 [createInstruction NOP ''NOP'' [] 0 ''4'' 6 [] False] s6;
          s8 = addEP 7 1 [createInstruction ARITHMETIC ''MV'' ''.L1X'' 0 ''A2, B2'' 7 [] False] s7
      in addEP 8 1
           [createInstruction SPKERNEL ''SPKERNEL'' [] 0 ''6, 0'' 8 [] False,
            createInstruction STORE ''STW'' ''.D'' 0 ''B2, *B0++'' 9 [] True] s8)"

definition parseNestedSoftwarePipelinedLoop :: "VLIWSimulator \<Rightarrow> VLIWSimulator" where
  "parseNestedSoftwarePipelinedLoop s =
     (let s0 = s\<lparr>guest_code := [], sploop_start_index := - 1\<rparr>;
          s1 = addEP 1 1 [createInstruction ARITHMETIC ''MVK'' ''.S'' 0 ''7, A8'' 1 [] False] s0;
          s2 = addEP 2 1 [createInstruction ARITHMETIC ''MVC'' ''.S'' 0 ''A8, ILC'' 2 [] False] s1;
          s3 = addEP 3 1 [createInstruction ARITHMETIC ''MVC'' ''.S'' 0 ''A8, RILC'' 3 [] False] s2;
          s4 = addEP 4 1 [createInstruction ARITHMETIC ''MVK'' ''.S'' 0 ''1, A1'' 4 [] False] s3;
          s5 = addEP 5 3 [createInstruction NOP ''NOP'' [] 0 ''3'' 5 [] False] s4;
          s6 = addEP 6 1 [createInstruction SPLOOP ''SPLOOP'' [] 0 ''1'' 6 ''[A1]'' False] s5;
          s7 = s6\<lparr>sploop_start_index := 6\<rparr>;
          s8 = addEP 7 1 [createInstruction LOAD ''LDW'' ''.D1'' 0 ''*A4++, A0'' 7 [] False] s7;
          s9 = addEP 8 4 [createInstruction NOP ''NOP'' [] 0 ''4'' 8 [] False] s8;
          s10 = addEP 9 1 [createInstruction ARITHMETIC ''MV'' ''.L2X'' 0 ''A0, B0'' 9 [] False] s9;
          s11 = addEP 10 1
                  [createInstruction SPKERNEL ''SPKERNELR'' [] 0 [] 10 [] False,
                   createInstruction STORE ''STW'' ''.D2'' 0 ''B0, *B4++'' 11 [] True] s10;
          s12 = addEP 11 1 [createInstruction BRANCH ''BR'' ''.S2'' 5 ''TARGET'' 12 [] False] s11;
          s13 = addEP 12 1
                  [createInstruction SPMASK ''SPMASK'' ''.D'' 0 [] 13 [] False,
                   createInstruction BRANCH ''B'' [] 0 ''BR TARGET'' 14 ''[A1]'' True,
                   createInstruction ARITHMETIC ''SUB'' ''.S1'' 0 ''A1, 1, A1'' 15 ''[A1]'' True,
                   createInstruction LOAD ''LDW'' ''.D1'' 0 ''*A6, A0'' 16 ''[A1]'' True,
                   createInstruction ARITHMETIC ''ADD'' ''.L1'' 0 ''A6, 4, A4'' 17 ''[A1]'' True] s12;
          s14 = addEP 13 4 [createInstruction NOP ''NOP'' [] 0 ''4'' 18 [] False] s13;
          s15 = addEP 14 1 [createInstruction ARITHMETIC ''OR'' ''.S2'' 0 ''B6, 0, B4'' 19 [] False] s14
      in addEP 15 1 [createInstruction NOP ''NOP'' [] 0 [] 20 [] False] s15)"

text \<open>Part 1 of \<^verbatim>\<open>simulateExecution\<close>: three blocks of the first stream under the constraint strategy.\<close>

definition simulate_part1 :: "VLIWSimulator \<Rightarrow> VLIWSimulator" where
  "simulate_part1 s =
     (let s1 = parseGuestCode s;
          start_ep_tb1 = getNextStartEP s1;
          initial_cycles = 1000
      in case translateWithConstraint s1 start_ep_tb1 initial_cycles of (tb1, s2) \<Rightarrow>
         let s3 = push_tb tb1 s2
         in case getCyclesFromPrecedingTB s3 of (cycles_for_tb2, s4) \<Rightarrow>
            let start_ep_tb2 = getNextStartEP s4
            in case translateWithConstraint s4 start_ep_tb2 cycles_for_tb2 of (tb2, s5) \<Rightarrow>
               let s6 = push_tb tb2 s5
               in case getCyclesFromPrecedingTB s6 of (cycles_for_tb3, s7) \<Rightarrow>
                  let next_ep_index = getNextStartEP s7
                  in if 0 \<le> next_ep_index \<and> next_ep_index < int (length (guest_code s7))
                     then (case translateWithConstraint s7 next_ep_index cycles_for_tb3 of
                             (tb3, s8) \<Rightarrow> push_tb tb3 s8)
                     else s7)"

text \<open>
  Part 2: the packet \<open>[STW, LDW]\<close>. The source leaves the \<^verbatim>\<open>delay_slots\<close> of both instructions
  unset (\<open>d1\<close>, \<open>d2\<close>).
\<close>

definition parallel_ep :: "int \<Rightarrow> int \<Rightarrow> ExecutePacket" where
  "parallel_ep d1 d2 =
     \<lparr>instructions =
        [\<lparr>type = STORE, mnemonic = ''STW'', unit = ''.D2'', delay_slots = d1, predicate = [],
          operands = ''B2, *B0++'', line_num = 1, parallel = False\<rparr>,
         \<lparr>type = LOAD, mnemonic = ''LDW'', unit = ''.D1'', delay_slots = d2, predicate = [],
          operands = ''*A1++, A2'', line_num = 2, parallel = True\<rparr>],
      cycles = 1, ep_num = 1\<rparr>"

definition simulate_part2 :: "uninit_store \<Rightarrow> int \<Rightarrow> int \<Rightarrow> VLIWSimulator \<Rightarrow> VLIWSimulator" where
  "simulate_part2 u d1 d2 s = fst (translateEPWithDeferredStores u s (parallel_ep d1 d2))"

definition single_start :: "VLIWSimulator \<Rightarrow> VLIWSimulator" where
  "single_start s = (parseSoftwarePipelinedLoop s)\<lparr>ILC := 8, state := 0\<rparr>"

definition simulate_part3 :: "uninit_tb \<Rightarrow> VLIWSimulator \<Rightarrow> VLIWSimulator" where
  "simulate_part3 U s = translateSoftwarePipelinedLoop U (single_start s)"

text \<open>
  The outer loop of part 4, with the number of iterations left: one call per outer
  iteration, left early when the machine is back in state 0 with A1 at 0.
\<close>

fun nested_outer_loop :: "uninit_tb \<Rightarrow> nat \<Rightarrow> VLIWSimulator \<Rightarrow> VLIWSimulator" where
  "nested_outer_loop U 0 s = s"
| "nested_outer_loop U (Suc n) s =
     (if state (translateNestedLoop U s) = 0 \<and> A1 (translateNestedLoop U s) = 0
      then translateNestedLoop U s
      else nested_outer_loop U n (translateNestedLoop U s))"

definition nested_start :: "VLIWSimulator \<Rightarrow> VLIWSimulator" where
  "nested_start s = (parseNestedSoftwarePipelinedLoop s)\<lparr>ILC := 7, RILC := 7, A1 := 3, state := 0\<rparr>"

definition simulate_part4 :: "uninit_tb \<Rightarrow> VLIWSimulator \<Rightarrow> VLIWSimulator" where
  "simulate_part4 U s = nested_outer_loop U 3 (nested_start s)"

definition simulateExecution :: "uninit_tb \<Rightarrow> uninit_store \<Rightarrow> int \<Rightarrow> int \<Rightarrow> VLIWSimulator" where
  "simulateExecution U u d1 d2 =
     simulate_part4 U (simulate_part3 U (simulate_part2 u d1 d2 (simulate_part1 VLIWSimulator_init)))"

section \<open>Notions used in the statements\<close>

text \<open>
  A Branch whose delay-slot count reaches the constant 1000 of the builder, and a packet
  without such Branches.
\<close>

definition far_branch :: "Instruction \<Rightarrow> bool" where
  "far_branch insn = (type insn = BRANCH \<and> 1000 \<le> delay_slots insn)"

definition strip_far_branches :: "ExecutePacket \<Rightarrow> ExecutePacket" where
  "strip_far_branches ep =
     ep\<lparr>instructions := filter (\<lambda>insn. \<not> far_branch insn) (instructions ep)\<rparr>"

text \<open>
  The Store that the deferred-store strategy emits for the \<open>j\<close>-th Store \<open>i\<close> of a packet:
  \<open>store_insn\<close> applied to \<open>deferred_store i\<close>, field by field.
\<close>

definition rebuilt :: "uninit_store \<Rightarrow> nat \<times> Instruction \<Rightarrow> Instruction" where
  "rebuilt u = (\<lambda>(j, i).
     \<lparr>type = STORE, mnemonic = ''STW'', unit = unit i, delay_slots = fst (u j), predicate = [],
      operands = operands i, line_num = line_num i, parallel = snd (u j)\<rparr>)"

text \<open>The labels of the blocks translated so far, in the order of translation.\<close>

definition tb_labels :: "VLIWSimulator \<Rightarrow> string list" where
  "tb_labels s = map start_label (translation_blocks s)"

text \<open>
  The simulator as part 3 of the driver starts the single-loop machine on it, as part 4
  starts the nested machine on it, and after \<open>k\<close> outer iterations of the nested machine.
\<close>

definition before_single :: "uninit_store \<Rightarrow> int \<Rightarrow> int \<Rightarrow> VLIWSimulator" where
  "before_single u d1 d2 = single_start (simulate_part2 u d1 d2 (simulate_part1 VLIWSimulator_init))"

definition before_nested :: "uninit_tb \<Rightarrow> uninit_store \<Rightarrow> int \<Rightarrow> int \<Rightarrow> VLIWSimulator" where
  "before_nested U u d1 d2 =
     nested_start (simulate_part3 U (simulate_part2 u d1 d2 (simulate_part1 VLIWSimulator_init)))"

definition outer_iteration :: "uninit_tb \<Rightarrow> uninit_store \<Rightarrow> int \<Rightarrow> int \<Rightarrow> nat \<Rightarrow> VLIWSimulator" where
  "outer_iteration U u d1 d2 k = (translateNestedLoop U ^^ k) (before_nested U u d1 d2)"

text \<open>
  The invariant of the nested machine between outer iterations: block ids are not negative
  where the search of state 2 reads them, and no nested phase label occurs twice.
\<close>

definition overlap_cached :: "VLIWSimulator \<Rightarrow> bool" where
  "overlap_cached s =
     (0 \<le> current_tb_id s \<and>
      (\<forall>tb \<in> set (translation_blocks s). start_label tb = ''NESTED_STATE_2'' \<longrightarrow> 0 \<le> tb_id tb) \<and>
      count_list (tb_labels s) ''NESTED_STATE_0'' \<le> 1 \<and>
      count_list (tb_labels s) ''NESTED_STATE_1'' \<le> 1 \<and>
      count_list (tb_labels s) ''NESTED_STATE_2'' \<le> 1)"

section \<open>Example inputs\<close>

text \<open>
  Small streams used to run the definitions on concrete inputs, and fixed values for the
  fields the source leaves unset.
\<close>

definition zero_tb :: uninit_tb where
  "zero_tb i = (0, 0, 0)"

definition zero_store :: uninit_store where
  "zero_store j = (0, False)"

definition one_packet :: "int \<Rightarrow> Instruction list \<Rightarrow> ExecutePacket" where
  "one_packet c insns = \<lparr>instructions = insns, cycles = c, ep_num = 1\<rparr>"

definition branch_insn :: "int \<Rightarrow> Instruction" where
  "branch_insn d = createInstruction BRANCH ''B'' ''.S2'' d ''LOOP'' 1 [] False"

definition nop_insn :: Instruction where
  "nop_insn = createInstruction NOP ''NOP'' [] 0 [] 2 [] False"

definition sim_with :: "ExecutePacket list \<Rightarrow> VLIWSimulator" where
  "sim_with gc = VLIWSimulator_init\<lparr>guest_code := gc\<rparr>"

text \<open>A Branch with delay 5 followed by seven one-cycle packets.\<close>

definition clamp_stream :: "ExecutePacket list" where
  "clamp_stream = [one_packet 1 [branch_insn 5], one_packet 1 [nop_insn], one_packet 1 [nop_insn],
     one_packet 1 [nop_insn], one_packet 1 [nop_insn], one_packet 1 [nop_insn], one_packet 1 [nop_insn],
     one_packet 1 [nop_insn]]"

text \<open>A Branch with delay 1 followed by three packets that cost no cycle.\<close>

definition free_stream :: "ExecutePacket list" where
  "free_stream = [one_packet 1 [branch_insn 1], one_packet 0 [nop_insn], one_packet 0 [nop_insn],
     one_packet 0 [nop_insn]]"

text \<open>A Branch with delay 5000 followed by packets that cost 1500, 1200 and 1 cycles.\<close>

definition far_stream :: "ExecutePacket list" where
  "far_stream = [one_packet 1 [branch_insn 5000], one_packet 1500 [nop_insn],
     one_packet 1200 [nop_insn], one_packet 1 [nop_insn]]"

text \<open>A predicated half-word Store, a Load, and an SPMASK marker.\<close>

definition sth_insn :: Instruction where
  "sth_insn = createInstruction STORE ''STH'' ''.D2'' 0 ''B2, *B0++'' 1 ''[B1]'' False"

definition load_insn :: Instruction where
  "load_insn = createInstruction LOAD ''LDW'' ''.D1'' 0 ''*A6, A0'' 3 [] True"

definition spmask_insn :: Instruction where
  "spmask_insn = createInstruction SPMASK ''SPMASK'' ''.D'' 0 [] 4 [] False"

text \<open>A kernel whose first packet co-issues a Load with an SPMASK marker.\<close>

definition spmask_sim :: VLIWSimulator where
  "spmask_sim =
     (sim_with [one_packet 1 [spmask_insn, load_insn], one_packet 1 [nop_insn]])
       \<lparr>sploop_start_index := 0\<rparr>"

section \<open>The builder loop\<close>

lemma min_fold_le_init: "foldl min_delay_step a insns \<le> a"
proof (induction insns arbitrary: a)
  case Nil
  show ?case by simp
next
  case (Cons x xs)
  have "foldl min_delay_step (min_delay_step a x) xs \<le> min_delay_step a x" by (rule Cons.IH)
  also have "min_delay_step a x \<le> a" by (simp add: min_delay_step_def)
  finally show ?case by simp
qed

lemma min_fold_le_branch:
  "i \<in> set insns \<Longrightarrow> type i = BRANCH \<Longrightarrow> foldl min_delay_step a insns \<le> delay_slots i"
proof (induction insns arbitrary: a)
  case Nil
  then show ?case by simp
next
  case (Cons x xs)
  show ?case
  proof (cases "i = x")
    case True
    have "foldl min_delay_step (min_delay_step a x) xs \<le> min_delay_step a x"
      by (rule min_fold_le_init)
    also have "min_delay_step a x \<le> delay_slots i"
      using True Cons.prems(2) by (simp add: min_delay_step_def)
    finally show ?thesis by simp
  next
    case False
    with Cons.prems have "i \<in> set xs" by simp
    from Cons.IH [OF this Cons.prems(2)] show ?thesis by simp
  qed
qed

lemma min_current_branch_delay_le_1000: "min_current_branch_delay insns \<le> 1000"
  unfolding min_current_branch_delay_def by (rule min_fold_le_init)

lemma min_current_branch_delay_le:
  "i \<in> set insns \<Longrightarrow> type i = BRANCH \<Longrightarrow> min_current_branch_delay insns \<le> delay_slots i"
  unfolding min_current_branch_delay_def by (rule min_fold_le_branch)

lemma next_cycles_le_sub: "next_cycles ep cyc \<le> cyc - cycles ep"
  by (simp add: next_cycles_def Let_def)

lemma next_cycles_le_branch:
  assumes "i \<in> set (instructions ep)" "type i = BRANCH" "delay_slots i < 1000"
  shows "next_cycles ep cyc \<le> delay_slots i"
  using min_current_branch_delay_le [OF assms(1,2)] assms(3)
  by (auto simp: next_cycles_def Let_def)

lemma tb_loop_stop:
  assumes "\<not> (0 \<le> ep_index \<and> ep_index < int (length gc) \<and> cyc > 0)"
  shows "tb_loop gc cyc ep_index pk sc = (cyc, ep_index, pk, sc)"
  using assms by (subst tb_loop.simps) auto

lemma tb_loop_last:
  assumes "0 \<le> ep_index \<and> ep_index < int (length gc) \<and> cyc > 0"
    and "next_cycles (gc ! nat ep_index) cyc \<le> 0"
  shows "tb_loop gc cyc ep_index pk sc =
           (next_cycles (gc ! nat ep_index) cyc, ep_index + 1, pk @ [gc ! nat ep_index],
            push_branch_contexts sc (instructions (gc ! nat ep_index)))"
  using assms by (subst tb_loop.simps) simp

lemma tb_loop_continue:
  assumes "0 \<le> ep_index \<and> ep_index < int (length gc) \<and> cyc > 0"
    and "\<not> next_cycles (gc ! nat ep_index) cyc \<le> 0"
  shows "tb_loop gc cyc ep_index pk sc =
           tb_loop gc (next_cycles (gc ! nat ep_index) cyc) (ep_index + 1)
             (pk @ [gc ! nat ep_index])
             (push_branch_contexts sc (instructions (gc ! nat ep_index)))"
  using assms by (subst tb_loop.simps) simp

lemma tb_loop_length_bound:
  assumes "\<forall>ep \<in> set gc. 1 \<le> cycles ep"
  shows "length (fst (snd (snd (tb_loop gc cyc ep_index pk sc)))) \<le> length pk + nat cyc"
  using assms
proof (induction gc cyc ep_index pk sc rule: tb_loop.induct)
  case (1 gc cyc ep_index pk sc)
  show ?case
  proof (cases "0 \<le> ep_index \<and> ep_index < int (length gc) \<and> cyc > 0")
    case False
    then show ?thesis by (simp add: tb_loop_stop)
  next
    case True
    let ?ep = "gc ! nat ep_index"
    from True have "nat ep_index < length gc" by linarith
    then have "?ep \<in> set gc" by (rule nth_mem)
    with "1.prems" have cost: "1 \<le> cycles ?ep" by blast
    have le: "next_cycles ?ep cyc \<le> cyc - 1"
      using next_cycles_le_sub [of ?ep cyc] cost by linarith
    show ?thesis
    proof (cases "next_cycles ?ep cyc \<le> 0")
      case stop: True
      from True have "0 < cyc" by simp
      then show ?thesis by (simp add: tb_loop_last [OF True stop])
    next
      case go: False
      have "length (fst (snd (snd (tb_loop gc (next_cycles ?ep cyc) (ep_index + 1) (pk @ [?ep])
               (push_branch_contexts sc (instructions ?ep))))))
            \<le> length (pk @ [?ep]) + nat (next_cycles ?ep cyc)"
        using "1.IH" [OF True go "1.prems"] .
      moreover have "Suc (nat (next_cycles ?ep cyc)) \<le> nat cyc" using le go by linarith
      ultimately show ?thesis by (simp add: tb_loop_continue [OF True go])
    qed
  qed
qed

lemma tb_loop_prefix:
  "\<exists>new. fst (snd (snd (tb_loop gc cyc ep_index pk sc))) = pk @ new"
proof (induction gc cyc ep_index pk sc rule: tb_loop.induct)
  case (1 gc cyc ep_index pk sc)
  show ?case
  proof (cases "0 \<le> ep_index \<and> ep_index < int (length gc) \<and> cyc > 0")
    case False
    then show ?thesis by (simp add: tb_loop_stop)
  next
    case True
    let ?ep = "gc ! nat ep_index"
    show ?thesis
    proof (cases "next_cycles ?ep cyc \<le> 0")
      case stop: True
      show ?thesis by (simp add: tb_loop_last [OF True stop])
    next
      case go: False
      from "1.IH" [OF True go] obtain new where
        "fst (snd (snd (tb_loop gc (next_cycles ?ep cyc) (ep_index + 1) (pk @ [?ep])
               (push_branch_contexts sc (instructions ?ep))))) = (pk @ [?ep]) @ new" by blast
      then show ?thesis by (simp add: tb_loop_continue [OF True go])
    qed
  qed
qed

lemma tb_loop_clamp_bound:
  assumes "\<forall>ep \<in> set gc. 1 \<le> cycles ep"
    and "length pk \<le> k" and "k < length (fst (snd (snd (tb_loop gc cyc ep_index pk sc))))"
    and "i \<in> set (instructions (fst (snd (snd (tb_loop gc cyc ep_index pk sc))) ! k))"
    and "type i = BRANCH" and "delay_slots i < 1000"
  shows "length (fst (snd (snd (tb_loop gc cyc ep_index pk sc)))) \<le> k + 1 + nat (delay_slots i)"
  using assms
proof (induction gc cyc ep_index pk sc rule: tb_loop.induct)
  case (1 gc cyc ep_index pk sc)
  show ?case
  proof (cases "0 \<le> ep_index \<and> ep_index < int (length gc) \<and> cyc > 0")
    case False
    with "1.prems"(2,3) show ?thesis by (simp add: tb_loop_stop)
  next
    case True
    let ?ep = "gc ! nat ep_index"
    let ?sc = "push_branch_contexts sc (instructions ?ep)"
    show ?thesis
    proof (cases "next_cycles ?ep cyc \<le> 0")
      case stop: True
      from "1.prems"(2,3) show ?thesis by (simp add: tb_loop_last [OF True stop])
    next
      case go: False
      let ?r = "tb_loop gc (next_cycles ?ep cyc) (ep_index + 1) (pk @ [?ep]) ?sc"
      have eq: "tb_loop gc cyc ep_index pk sc = ?r" by (rule tb_loop_continue [OF True go])
      show ?thesis
      proof (cases "k = length pk")
        case here: True
        obtain new where new: "fst (snd (snd ?r)) = (pk @ [?ep]) @ new"
          using tb_loop_prefix by blast
        with here have "fst (snd (snd ?r)) ! k = ?ep" by (simp add: nth_append)
        with "1.prems"(4) eq have "i \<in> set (instructions ?ep)" by simp
        from next_cycles_le_branch [OF this "1.prems"(5,6)]
        have "nat (next_cycles ?ep cyc) \<le> nat (delay_slots i)" by (rule nat_mono)
        moreover have "length (fst (snd (snd ?r))) \<le> length (pk @ [?ep]) + nat (next_cycles ?ep cyc)"
          by (rule tb_loop_length_bound [OF "1.prems"(1)])
        ultimately show ?thesis using here eq by simp
      next
        case later: False
        with "1.prems"(2) have "length (pk @ [?ep]) \<le> k" by simp
        from "1.IH" [OF True go "1.prems"(1) this] "1.prems"(3-6) eq
        show ?thesis by simp
      qed
    qed
  qed
qed


lemma tb_loop_index:
  "fst (snd (tb_loop gc cyc ep_index pk sc)) + int (length pk) =
     ep_index + int (length (fst (snd (snd (tb_loop gc cyc ep_index pk sc)))))"
proof (induction gc cyc ep_index pk sc rule: tb_loop.induct)
  case (1 gc cyc ep_index pk sc)
  show ?case
  proof (cases "0 \<le> ep_index \<and> ep_index < int (length gc) \<and> cyc > 0")
    case False
    then show ?thesis by (simp add: tb_loop_stop)
  next
    case True
    show ?thesis
    proof (cases "next_cycles (gc ! nat ep_index) cyc \<le> 0")
      case stop: True
      show ?thesis by (simp add: tb_loop_last [OF True stop])
    next
      case go: False
      from "1.IH" [OF True go] show ?thesis by (simp add: tb_loop_continue [OF True go])
    qed
  qed
qed

lemma tb_loop_first:
  assumes "0 \<le> ep_index \<and> ep_index < int (length gc) \<and> cyc > 0"
  shows "\<exists>new. fst (snd (snd (tb_loop gc cyc ep_index pk sc))) = pk @ gc ! nat ep_index # new"
proof (cases "next_cycles (gc ! nat ep_index) cyc \<le> 0")
  case True
  show ?thesis by (simp add: tb_loop_last [OF assms True])
next
  case False
  obtain new where
    "fst (snd (snd (tb_loop gc (next_cycles (gc ! nat ep_index) cyc) (ep_index + 1)
        (pk @ [gc ! nat ep_index]) (push_branch_contexts sc (instructions (gc ! nat ep_index))))))
     = (pk @ [gc ! nat ep_index]) @ new"
    using tb_loop_prefix by blast
  then show ?thesis by (simp add: tb_loop_continue [OF assms False])
qed

lemma packets_translateWithConstraint:
  "packets (fst (translateWithConstraint s start_ep initial_cycles)) =
     fst (snd (snd (tb_loop (guest_code s) initial_cycles start_ep [] (saved_contexts s))))"
  by (simp add: translateWithConstraint_def split: prod.splits)

lemma end_ep_index_translateWithConstraint:
  "end_ep_index (fst (translateWithConstraint s start_ep initial_cycles)) =
     fst (snd (tb_loop (guest_code s) initial_cycles start_ep [] (saved_contexts s))) - 1"
  by (simp add: translateWithConstraint_def split: prod.splits)

lemma saved_contexts_translateWithConstraint:
  "saved_contexts (snd (translateWithConstraint s start_ep initial_cycles)) =
     snd (snd (snd (tb_loop (guest_code s) initial_cycles start_ep [] (saved_contexts s))))"
  by (simp add: translateWithConstraint_def split: prod.splits)

section \<open>The tracker\<close>

lemma foldl_push_context_step:
  "foldl push_context_step sc insns =
     sc @ map branch_context (filter (\<lambda>insn. type insn = BRANCH) insns)"
  by (induction insns arbitrary: sc) (simp_all add: push_context_step_def)

lemma push_branch_contexts_eq:
  "push_branch_contexts sc insns =
     sc @ map branch_context (filter (\<lambda>insn. type insn = BRANCH) insns)"
  unfolding push_branch_contexts_def by (rule foldl_push_context_step)

lemma tb_loop_saved:
  "snd (snd (snd (tb_loop gc cyc ep_index pk sc))) =
     sc @ map branch_context (filter (\<lambda>insn. type insn = BRANCH)
            (concat (map instructions (drop (length pk) (fst (snd (snd (tb_loop gc cyc ep_index pk sc))))))))"
proof (induction gc cyc ep_index pk sc rule: tb_loop.induct)
  case (1 gc cyc ep_index pk sc)
  show ?case
  proof (cases "0 \<le> ep_index \<and> ep_index < int (length gc) \<and> cyc > 0")
    case False
    then show ?thesis by (simp add: tb_loop_stop)
  next
    case True
    let ?ep = "gc ! nat ep_index"
    show ?thesis
    proof (cases "next_cycles ?ep cyc \<le> 0")
      case stop: True
      show ?thesis by (simp add: tb_loop_last [OF True stop] push_branch_contexts_eq)
    next
      case go: False
      let ?r = "tb_loop gc (next_cycles ?ep cyc) (ep_index + 1) (pk @ [?ep])
                  (push_branch_contexts sc (instructions ?ep))"
      obtain new where new: "fst (snd (snd ?r)) = (pk @ [?ep]) @ new"
        using tb_loop_prefix by blast
      from "1.IH" [OF True go] new show ?thesis
        by (simp add: tb_loop_continue [OF True go] push_branch_contexts_eq)
    qed
  qed
qed

lemma saved_contexts_getCycles:
  "saved_contexts (snd (getCyclesFromPrecedingTB s)) =
     filter (\<lambda>ctx. 0 < remaining_delay ctx) (saved_contexts s)"
  by (cases "saved_contexts s") (simp_all add: getCyclesFromPrecedingTB_def not_le)

section \<open>The constant 1000\<close>

lemma foldl_min_delay_step_strip:
  "a \<le> 1000 \<Longrightarrow>
   foldl min_delay_step a (filter (\<lambda>insn. \<not> far_branch insn) insns) = foldl min_delay_step a insns"
proof (induction insns arbitrary: a)
  case Nil
  show ?case by simp
next
  case (Cons x xs)
  have le: "min_delay_step a x \<le> 1000" using Cons.prems by (simp add: min_delay_step_def)
  show ?case
  proof (cases "far_branch x")
    case True
    with Cons.prems have "min_delay_step a x = a" by (simp add: min_delay_step_def far_branch_def)
    with True Cons.IH [OF Cons.prems] show ?thesis by simp
  next
    case False
    with Cons.IH [OF le] show ?thesis by simp
  qed
qed

lemma min_current_branch_delay_strip:
  "min_current_branch_delay (instructions (strip_far_branches ep)) =
     min_current_branch_delay (instructions ep)"
  by (simp add: min_current_branch_delay_def strip_far_branches_def foldl_min_delay_step_strip)

lemma next_cycles_strip: "next_cycles (strip_far_branches ep) cyc = next_cycles ep cyc"
  by (simp add: next_cycles_def min_current_branch_delay_strip) (simp add: strip_far_branches_def)

lemma tb_loop_strip:
  "fst (tb_loop (map strip_far_branches gc) cyc ep_index pk' sc') = fst (tb_loop gc cyc ep_index pk sc) \<and>
   fst (snd (tb_loop (map strip_far_branches gc) cyc ep_index pk' sc')) =
     fst (snd (tb_loop gc cyc ep_index pk sc))"
proof (induction gc cyc ep_index pk sc arbitrary: pk' sc' rule: tb_loop.induct)
  case (1 gc cyc ep_index pk sc)
  let ?gc' = "map strip_far_branches gc"
  show ?case
  proof (cases "0 \<le> ep_index \<and> ep_index < int (length gc) \<and> cyc > 0")
    case False
    then have "\<not> (0 \<le> ep_index \<and> ep_index < int (length ?gc') \<and> cyc > 0)" by simp
    with False show ?thesis by (simp add: tb_loop_stop)
  next
    case True
    then have True': "0 \<le> ep_index \<and> ep_index < int (length ?gc') \<and> cyc > 0" by simp
    from True have "nat ep_index < length gc" by linarith
    then have nc: "next_cycles (?gc' ! nat ep_index) cyc = next_cycles (gc ! nat ep_index) cyc"
      by (simp add: next_cycles_strip)
    show ?thesis
    proof (cases "next_cycles (gc ! nat ep_index) cyc \<le> 0")
      case stop: True
      then have stop': "next_cycles (?gc' ! nat ep_index) cyc \<le> 0" using nc by simp
      show ?thesis
        by (simp add: tb_loop_last [OF True stop] tb_loop_last [OF True' stop'] nc)
    next
      case go: False
      then have go': "\<not> next_cycles (?gc' ! nat ep_index) cyc \<le> 0" using nc by simp
      show ?thesis
        using "1.IH" [OF True go]
        by (simp add: tb_loop_continue [OF True go] tb_loop_continue [OF True' go'] nc)
    qed
  qed
qed

lemma min_current_branch_delay_no_near:
  assumes "\<forall>i \<in> set insns. type i = BRANCH \<longrightarrow> 1000 \<le> delay_slots i"
  shows "min_current_branch_delay insns = 1000"
proof -
  from assms have "filter (\<lambda>insn. \<not> far_branch insn) insns = filter (\<lambda>insn. type insn \<noteq> BRANCH) insns"
    by (intro filter_cong) (auto simp: far_branch_def)
  moreover have "foldl min_delay_step a (filter (\<lambda>insn. type insn \<noteq> BRANCH) insns) = a" for a
    by (induction insns arbitrary: a) (simp_all add: min_delay_step_def)
  ultimately show ?thesis
    using foldl_min_delay_step_strip [of 1000 insns] by (simp add: min_current_branch_delay_def)
qed

lemma part1_first_budget:
  "max_cycles (hd (translation_blocks (simulate_part1 VLIWSimulator_init))) = 1000"
  by code_simp

section \<open>The deferred-store strategy and the kernel scan\<close>

lemma foldl_defer_step:
  "foldl defer_step (ds, tr) insns =
     (ds @ map deferred_store (filter (\<lambda>i. type i = STORE) insns),
      tr @ filter (\<lambda>i. type i \<noteq> STORE) insns)"
  by (induction insns arbitrary: ds tr) (simp_all add: defer_step_def)

lemma emit_deferred_eq:
  "emit_deferred u j ds tr = tr @ map (\<lambda>(n, d). store_insn u n d) (enumerate j ds)"
  by (induction ds arbitrary: j tr) simp_all

lemma enumerate_map_deferred:
  "map (\<lambda>(n, d). store_insn u n d) (enumerate j (map deferred_store xs)) =
     map (rebuilt u) (enumerate j xs)"
  by (induction xs arbitrary: j) (simp_all add: store_insn_def deferred_store_def rebuilt_def)

lemma instructions_reorder:
  "instructions (reorder u ep) =
     filter (\<lambda>i. type i \<noteq> STORE) (instructions ep) @
     map (rebuilt u) (enumerate 0 (filter (\<lambda>i. type i = STORE) (instructions ep)))"
  by (simp add: reorder_def translateEPWithDeferredStores_def foldl_defer_step emit_deferred_eq
      enumerate_map_deferred)

lemma reorder_eq:
  "reorder u ep = ep\<lparr>instructions :=
     filter (\<lambda>i. type i \<noteq> STORE) (instructions ep) @
     map (rebuilt u) (enumerate 0 (filter (\<lambda>i. type i = STORE) (instructions ep)))\<rparr>"
  by (simp add: reorder_def translateEPWithDeferredStores_def foldl_defer_step emit_deferred_eq
      enumerate_map_deferred)





lemma nested_inner_scan_eq:
  "nested_inner_scan eps pk =
     pk @ filter (\<lambda>ep. \<not> has_spmask ep) (takeWhile (\<lambda>ep. \<not> has_branch ep) eps)"
  by (induction eps arbitrary: pk) simp_all

section \<open>The phase machines\<close>

lemma next_outer_fields:
  "ILC (next_outer s) = RILC s"
  "RILC (next_outer s) = RILC s"
  "A1 (next_outer s) = A1 s - 1"
  "state (next_outer s) = (if A1 s - 1 > 0 then 2 else 0)"
  "translation_blocks (next_outer s) = translation_blocks s"
  "current_tb_id (next_outer s) = current_tb_id s"
  by (simp_all add: next_outer_def Let_def)

lemma log_exec_fields:
  "ILC (log_exec n i s) = ILC s"
  "RILC (log_exec n i s) = RILC s"
  "A1 (log_exec n i s) = A1 s"
  "state (log_exec n i s) = state s"
  "translation_blocks (log_exec n i s) = translation_blocks s"
  "current_tb_id (log_exec n i s) = current_tb_id s"
  by (simp_all add: log_exec_def)

lemma push_tb_fields:
  "ILC (push_tb tb s) = ILC s"
  "RILC (push_tb tb s) = RILC s"
  "A1 (push_tb tb s) = A1 s"
  "state (push_tb tb s) = state s"
  "translation_blocks (push_tb tb s) = translation_blocks s @ [tb]"
  "current_tb_id (push_tb tb s) = current_tb_id s"
  by (simp_all add: push_tb_def)

lemma overlap_lookup_fields:
  "ILC (snd (overlap_lookup U s)) = ILC s"
  "RILC (snd (overlap_lookup U s)) = RILC s"
  "A1 (snd (overlap_lookup U s)) = A1 s"
  "translation_blocks (snd (overlap_lookup U s)) =
     (if find_tb_id ''NESTED_STATE_2'' (translation_blocks s) = - 1
      then translation_blocks s @ [new_phase_tb U s ''NESTED_STATE_2''
             (map (\<lambda>i. guest_code s ! i) [10..<length (guest_code s)])]
      else translation_blocks s)"
  "current_tb_id (snd (overlap_lookup U s)) =
     (if find_tb_id ''NESTED_STATE_2'' (translation_blocks s) = - 1
      then current_tb_id s + 1 else current_tb_id s)"
  by (simp_all add: overlap_lookup_def translateNestedOverlap_def push_tb_def)

lemma nested_step_counters:
  assumes "state s = 0 \<or> state s = 2"
  shows "ILC (translateNestedLoop U s) = RILC s"
    and "RILC (translateNestedLoop U s) = RILC s"
    and "A1 (translateNestedLoop U s) = A1 s - 1"
    and "state (translateNestedLoop U s) = (if A1 s - 1 > 0 then 2 else 0)"
  using assms
  by (auto simp: translateNestedLoop_def Let_def next_outer_fields log_exec_fields push_tb_fields
      translateNestedProlog_def translateNestedInner_def overlap_lookup_fields case_prod_beta)


lemma nested_step_labels_0:
  assumes "state s = 0"
  shows "map start_label (translation_blocks (translateNestedLoop U s)) =
           map start_label (translation_blocks s) @
           ''NESTED_STATE_0'' # (if ILC s - 1 > 0 then [''NESTED_STATE_1''] else [])"
    and "take (length (translation_blocks s)) (translation_blocks (translateNestedLoop U s)) =
           translation_blocks s"
  using assms
  by (simp_all add: translateNestedLoop_def Let_def next_outer_def log_exec_def push_tb_def
      translateNestedProlog_def translateNestedInner_def new_phase_tb_def case_prod_beta)

lemma nested_step_id_0:
  assumes "state s = 0"
  shows "current_tb_id s \<le> current_tb_id (translateNestedLoop U s)"
  using assms
  by (simp add: translateNestedLoop_def Let_def next_outer_fields log_exec_fields push_tb_fields
      translateNestedProlog_def translateNestedInner_def new_phase_tb_def case_prod_beta)

lemma nested_step_blocks_2:
  assumes "state s = 2"
  shows "translation_blocks (translateNestedLoop U s) =
           (if find_tb_id ''NESTED_STATE_2'' (translation_blocks s) = - 1
            then translation_blocks s @ [fst (translateNestedOverlap U s)]
            else translation_blocks s)"
  using assms
  by (simp add: translateNestedLoop_def Let_def next_outer_fields log_exec_fields push_tb_fields
      overlap_lookup_fields translateNestedOverlap_def case_prod_beta)

lemma nested_step_id_2:
  assumes "state s = 2"
  shows "current_tb_id s \<le> current_tb_id (translateNestedLoop U s)"
  using assms
  by (simp add: translateNestedLoop_def Let_def next_outer_fields log_exec_fields push_tb_fields
      overlap_lookup_fields case_prod_beta)

lemma phase_tb_fields:
  "start_label (fst (translateNestedProlog U s)) = ''NESTED_STATE_0''"
  "start_label (fst (translateNestedInner U s)) = ''NESTED_STATE_1''"
  "start_label (fst (translateNestedOverlap U s)) = ''NESTED_STATE_2''"
  "start_label (fst (translateNormalLoop U s)) = ''LOOP_STATE_0''"
  "start_label (fst (translateKernelLoop U s)) = ''LOOP_STATE_1''"
  "tb_id (fst (translateNestedOverlap U s)) = current_tb_id s"
  by (simp_all add: translateNestedProlog_def translateNestedInner_def translateNestedOverlap_def
      translateNormalLoop_def translateKernelLoop_def new_phase_tb_def)

lemma single_loop_labels:
  assumes "state s = 0"
  shows "map start_label (translation_blocks (translateSoftwarePipelinedLoop U s)) =
           map start_label (translation_blocks s) @
           ''LOOP_STATE_0'' # (if ILC s - 1 > 0 then [''LOOP_STATE_1''] else [])"
  using assms
  by (simp add: translateSoftwarePipelinedLoop_def Let_def log_exec_def push_tb_def
      translateNormalLoop_def translateKernelLoop_def new_phase_tb_def case_prod_beta)



lemma find_tb_id_absent:
  "label \<notin> set (map start_label tbs) \<Longrightarrow> find_tb_id label tbs = - 1"
  by (induction tbs) auto

lemma find_tb_id_present:
  "label \<in> set (map start_label tbs) \<Longrightarrow>
   \<forall>tb \<in> set tbs. start_label tb = label \<longrightarrow> 0 \<le> tb_id tb \<Longrightarrow>
   find_tb_id label tbs \<noteq> - 1"
  by (induction tbs) auto


lemma absent_label_blocks:
  assumes "l \<notin> set (tb_labels s)"
  shows "\<forall>tb \<in> set (translation_blocks s). start_label tb = l \<longrightarrow> 0 \<le> tb_id tb"
proof (intro ballI impI)
  fix tb
  assume "tb \<in> set (translation_blocks s)" and "start_label tb = l"
  then have "l \<in> set (tb_labels s)" unfolding tb_labels_def by force
  with assms show "0 \<le> tb_id tb" by contradiction
qed

lemma nested_step_prefix_2:
  assumes "state s = 2"
  shows "prefix (translation_blocks s) (translation_blocks (translateNestedLoop U s))"
  by (simp add: nested_step_blocks_2 [OF assms])

lemma nested_step_prefix_0:
  assumes "state s = 0"
  shows "prefix (translation_blocks s) (translation_blocks (translateNestedLoop U s))"
  using nested_step_labels_0(2) [OF assms, of U]
  by (metis take_is_prefix)

lemma overlap_cached_step_2:
  assumes "state s = 2" and "overlap_cached s"
  shows "overlap_cached (translateNestedLoop U s)"
proof (cases "find_tb_id ''NESTED_STATE_2'' (translation_blocks s) = - 1")
  case False
  then have "translation_blocks (translateNestedLoop U s) = translation_blocks s"
    by (simp add: nested_step_blocks_2 [OF assms(1)])
  with assms(2) nested_step_id_2 [OF assms(1), of U] show ?thesis
    by (simp add: overlap_cached_def tb_labels_def)
next
  case True
  have absent: "''NESTED_STATE_2'' \<notin> set (map start_label (translation_blocks s))"
  proof
    assume "''NESTED_STATE_2'' \<in> set (map start_label (translation_blocks s))"
    moreover from assms(2)
    have "\<forall>tb \<in> set (translation_blocks s). start_label tb = ''NESTED_STATE_2'' \<longrightarrow> 0 \<le> tb_id tb"
      by (simp add: overlap_cached_def)
    ultimately have "find_tb_id ''NESTED_STATE_2'' (translation_blocks s) \<noteq> - 1"
      by (rule find_tb_id_present)
    with True show False by simp
  qed
  then have zero: "count_list (tb_labels s) ''NESTED_STATE_2'' = 0"
    by (simp add: tb_labels_def)
  from True have "translation_blocks (translateNestedLoop U s) =
      translation_blocks s @ [fst (translateNestedOverlap U s)]"
    by (simp add: nested_step_blocks_2 [OF assms(1)])
  with assms(2) zero nested_step_id_2 [OF assms(1), of U] show ?thesis
    by (simp add: overlap_cached_def tb_labels_def phase_tb_fields)
qed

lemma overlap_cached_step_0:
  assumes "state s = 0" and "0 \<le> current_tb_id s"
    and "''NESTED_STATE_0'' \<notin> set (tb_labels s)"
    and "''NESTED_STATE_1'' \<notin> set (tb_labels s)"
    and "''NESTED_STATE_2'' \<notin> set (tb_labels s)"
  shows "overlap_cached (translateNestedLoop U s)"
proof -
  have lab: "tb_labels (translateNestedLoop U s) =
      tb_labels s @ ''NESTED_STATE_0'' # (if ILC s - 1 > 0 then [''NESTED_STATE_1''] else [])"
    unfolding tb_labels_def by (rule nested_step_labels_0(1) [OF assms(1)])
  have "''NESTED_STATE_2'' \<notin> set (tb_labels (translateNestedLoop U s))"
    using assms(5) by (simp add: lab)
  then have "\<forall>tb \<in> set (translation_blocks (translateNestedLoop U s)).
      start_label tb = ''NESTED_STATE_2'' \<longrightarrow> 0 \<le> tb_id tb"
    by (rule absent_label_blocks)
  moreover have "0 \<le> current_tb_id (translateNestedLoop U s)"
    using assms(2) nested_step_id_0 [OF assms(1), of U] by simp
  moreover have "count_list (tb_labels (translateNestedLoop U s)) ''NESTED_STATE_0'' \<le> 1"
    "count_list (tb_labels (translateNestedLoop U s)) ''NESTED_STATE_1'' \<le> 1"
    "count_list (tb_labels (translateNestedLoop U s)) ''NESTED_STATE_2'' \<le> 1"
    using assms(3-5) by (simp_all add: lab)
  ultimately show ?thesis by (simp add: overlap_cached_def)
qed

lemma nested_outer_loop_cached:
  assumes "state s = 2" and "1 \<le> A1 s" and "overlap_cached s"
  shows "overlap_cached (nested_outer_loop U n s) \<and>
         prefix (translation_blocks s) (translation_blocks (nested_outer_loop U n s))"
  using assms
proof (induction n arbitrary: s)
  case 0
  then show ?case by simp
next
  case (Suc n)
  let ?s' = "translateNestedLoop U s"
  have st: "state s = 0 \<or> state s = 2" using Suc.prems(1) by simp
  note step = nested_step_counters [OF st, of U]
  have oc: "overlap_cached ?s'" using Suc.prems(1,3) by (rule overlap_cached_step_2)
  have pre: "prefix (translation_blocks s) (translation_blocks ?s')"
    using Suc.prems(1) by (rule nested_step_prefix_2)
  show ?case
  proof (cases "state ?s' = 0 \<and> A1 ?s' = 0")
    case True
    with oc pre show ?thesis by simp
  next
    case False
    have "A1 ?s' = A1 s - 1" by (rule step(3))
    with False step(4) Suc.prems(2) have "state ?s' = 2" "1 \<le> A1 ?s'"
      by (cases "A1 s - 1 > 0"; auto)+
    from Suc.IH [OF this oc]
    have "overlap_cached (nested_outer_loop U n ?s') \<and>
          prefix (translation_blocks ?s') (translation_blocks (nested_outer_loop U n ?s'))" .
    moreover have "nested_outer_loop U (Suc n) s = nested_outer_loop U n ?s'"
      using False by auto
    ultimately show ?thesis using pre by (auto intro: prefix_order.trans)
  qed
qed

lemma nested_outer_loop_translate_once:
  assumes "state s = 0" and "1 \<le> A1 s" and "0 \<le> current_tb_id s"
    and "''NESTED_STATE_0'' \<notin> set (tb_labels s)"
    and "''NESTED_STATE_1'' \<notin> set (tb_labels s)"
    and "''NESTED_STATE_2'' \<notin> set (tb_labels s)"
  shows "overlap_cached (nested_outer_loop U n s) \<and>
         prefix (translation_blocks s) (translation_blocks (nested_outer_loop U n s))"
proof (cases n)
  case 0
  with assms absent_label_blocks [OF assms(6)] show ?thesis by (simp add: overlap_cached_def)
next
  case (Suc m)
  let ?s' = "translateNestedLoop U s"
  have st: "state s = 0 \<or> state s = 2" using assms(1) by simp
  note step = nested_step_counters [OF st, of U]
  have oc: "overlap_cached ?s'" using assms(1,3-6) by (rule overlap_cached_step_0)
  have pre: "prefix (translation_blocks s) (translation_blocks ?s')"
    using assms(1) by (rule nested_step_prefix_0)
  show ?thesis
  proof (cases "state ?s' = 0 \<and> A1 ?s' = 0")
    case True
    with oc pre Suc show ?thesis by simp
  next
    case False
    have "A1 ?s' = A1 s - 1" by (rule step(3))
    with False step(4) assms(2) have "state ?s' = 2" "1 \<le> A1 ?s'"
      by (cases "A1 s - 1 > 0"; auto)+
    from nested_outer_loop_cached [OF this oc, of U m]
    have "overlap_cached (nested_outer_loop U m ?s') \<and>
          prefix (translation_blocks ?s') (translation_blocks (nested_outer_loop U m ?s'))" .
    moreover have "nested_outer_loop U (Suc m) s = nested_outer_loop U m ?s'"
      using False by auto
    ultimately show ?thesis using pre Suc by (auto intro: prefix_order.trans)
  qed
qed


lemma single_loop_translate_once:
  assumes "state s = 0" and "''LOOP_STATE_0'' \<notin> set (tb_labels s)"
    and "''LOOP_STATE_1'' \<notin> set (tb_labels s)"
  shows "count_list (tb_labels (translateSoftwarePipelinedLoop U s)) ''LOOP_STATE_0'' \<le> 1 \<and>
         count_list (tb_labels (translateSoftwarePipelinedLoop U s)) ''LOOP_STATE_1'' \<le> 1"
proof -
  have "tb_labels (translateSoftwarePipelinedLoop U s) =
      tb_labels s @ ''LOOP_STATE_0'' # (if ILC s - 1 > 0 then [''LOOP_STATE_1''] else [])"
    unfolding tb_labels_def by (rule single_loop_labels [OF assms(1)])
  with assms(2,3) show ?thesis by simp
qed

subsection \<open>C3: progress of a build\<close>

text \<open>
  Claim C3, as amended. For every stream, every in-range start index and every budget of
  at least one cycle, \<open>translateWithConstraint\<close> returns a block with at least one packet:
  the packet at the start index comes first, whatever its cost, the end index is the start
  index plus the number of packets minus one, and so it is not below the start index.
\<close>

theorem build_progress:
  assumes "0 \<le> start" and "start < int (length (guest_code s))" and "0 < budget"
  shows "packets (fst (translateWithConstraint s start budget)) \<noteq> [] \<and>
         hd (packets (fst (translateWithConstraint s start budget))) = guest_code s ! nat start \<and>
         end_ep_index (fst (translateWithConstraint s start budget)) =
           start + int (length (packets (fst (translateWithConstraint s start budget)))) - 1 \<and>
         start \<le> end_ep_index (fst (translateWithConstraint s start budget))"
proof -
  let ?r = "tb_loop (guest_code s) budget start [] (saved_contexts s)"
  from assms have "0 \<le> start \<and> start < int (length (guest_code s)) \<and> budget > 0" by simp
  from tb_loop_first [OF this] obtain new where
    new: "fst (snd (snd ?r)) = [] @ guest_code s ! nat start # new" by blast
  have "fst (snd ?r) + int (length ([] :: ExecutePacket list)) = start + int (length (fst (snd (snd ?r))))"
    by (rule tb_loop_index)
  with new show ?thesis
    by (simp add: packets_translateWithConstraint end_ep_index_translateWithConstraint)
qed

text \<open>The theorem at a one-packet stream whose packet costs 5 cycles, under a budget of 1.\<close>

theorem build_progress_witness:
  "(0::int) \<le> 0 \<and> 0 < int (length (guest_code (sim_with [one_packet 5 [nop_insn]]))) \<and> (0::int) < 1 \<and>
   (1::int) < cycles (guest_code (sim_with [one_packet 5 [nop_insn]]) ! 0) \<and>
   packets (fst (translateWithConstraint (sim_with [one_packet 5 [nop_insn]]) 0 1)) \<noteq> [] \<and>
   hd (packets (fst (translateWithConstraint (sim_with [one_packet 5 [nop_insn]]) 0 1))) =
     one_packet 5 [nop_insn] \<and>
   0 \<le> end_ep_index (fst (translateWithConstraint (sim_with [one_packet 5 [nop_insn]]) 0 1))"
  using build_progress [of 0 "sim_with [one_packet 5 [nop_insn]]" 1]
  by (simp add: sim_with_def VLIWSimulator_init_def one_packet_def)

text \<open>
  The claim as stated, for any budget the builder may be called with, fails at budget 0. The
  driver's own sequence reaches it: the first packet holds a Branch with delay 0, the budget
  query after the first build returns that 0, and the next build, from the in-range index 1,
  returns a block with no packet, its end index below its start index.
\<close>

theorem build_progress_counterexample:
  "(case translateWithConstraint (sim_with [one_packet 1 [branch_insn 0], one_packet 1 [nop_insn]]) 0 1000 of
      (tb0, s1) \<Rightarrow>
        (case getCyclesFromPrecedingTB (push_tb tb0 s1) of
           (budget, s2) \<Rightarrow>
             (case translateWithConstraint s2 (getNextStartEP s2) budget of
                (tb1, s3) \<Rightarrow>
                  budget = 0 \<and> getNextStartEP s2 = 1 \<and> packets tb1 = [] \<and>
                  end_ep_index tb1 = 0 \<and> end_ep_index tb1 < start_ep_index tb1)))"
  by code_simp

subsection \<open>C1: the branch-delay clamp\<close>

lemma clamp_stream_packets:
  "packets (fst (translateWithConstraint (sim_with clamp_stream) 0 1000)) = take 6 clamp_stream"
  by code_simp

text \<open>
  Claim C1, as amended. Let a Branch with delay-slot count \<open>d < 1000\<close> sit in the packet at
  relative position \<open>k\<close> of a build. Whenever \<open>d\<close> is smaller than the budget left after
  subtracting that packet's cost, the loop sets the remaining budget to the smallest Branch
  delay of the packet, which is at most \<open>d\<close>. And when every packet of the stream costs at
  least one cycle, the block holds no packet beyond relative position \<open>k + max d 0\<close>.
\<close>

theorem branch_delay_clamp:
  assumes "\<forall>ep \<in> set (guest_code s). 1 \<le> cycles ep"
    and "k < length (packets (fst (translateWithConstraint s start budget)))"
    and "i \<in> set (instructions (packets (fst (translateWithConstraint s start budget)) ! k))"
    and "type i = BRANCH" and "delay_slots i < 1000"
  shows "(\<forall>cyc. delay_slots i < cyc - cycles (packets (fst (translateWithConstraint s start budget)) ! k) \<longrightarrow>
            next_cycles (packets (fst (translateWithConstraint s start budget)) ! k) cyc =
              min_current_branch_delay
                (instructions (packets (fst (translateWithConstraint s start budget)) ! k)) \<and>
            next_cycles (packets (fst (translateWithConstraint s start budget)) ! k) cyc \<le> delay_slots i) \<and>
         length (packets (fst (translateWithConstraint s start budget))) \<le> k + 1 + nat (delay_slots i)"
proof -
  let ?ep = "packets (fst (translateWithConstraint s start budget)) ! k"
  have m: "min_current_branch_delay (instructions ?ep) \<le> delay_slots i"
    using assms(3,4) by (rule min_current_branch_delay_le)
  have "\<forall>cyc. delay_slots i < cyc - cycles ?ep \<longrightarrow>
          next_cycles ?ep cyc = min_current_branch_delay (instructions ?ep) \<and>
          next_cycles ?ep cyc \<le> delay_slots i"
    using m assms(5) by (simp add: next_cycles_def Let_def)
  moreover have "length (packets (fst (translateWithConstraint s start budget))) \<le> k + 1 + nat (delay_slots i)"
    unfolding packets_translateWithConstraint
    by (rule tb_loop_clamp_bound [OF assms(1)])
       (use assms(2-5) in \<open>simp_all add: packets_translateWithConstraint\<close>)
  ultimately show ?thesis by blast
qed

text \<open>
  The theorem at a stream of eight one-cycle packets whose first packet holds a Branch with
  delay 5, built from index 0 under budget 1000: the budget after the first packet is 5 and
  the block holds six packets, positions 0 to 5.
\<close>

theorem branch_delay_clamp_witness:
  "list_all (\<lambda>ep. 1 \<le> cycles ep) (guest_code (sim_with clamp_stream)) \<and>
   0 < length (packets (fst (translateWithConstraint (sim_with clamp_stream) 0 1000))) \<and>
   branch_insn 5 \<in> set (instructions (packets (fst (translateWithConstraint (sim_with clamp_stream) 0 1000)) ! 0)) \<and>
   type (branch_insn 5) = BRANCH \<and> delay_slots (branch_insn 5) < 1000 \<and>
   delay_slots (branch_insn 5) < 1000 - cycles (clamp_stream ! 0) \<and>
   next_cycles (packets (fst (translateWithConstraint (sim_with clamp_stream) 0 1000)) ! 0) 1000 = 5 \<and>
   length (packets (fst (translateWithConstraint (sim_with clamp_stream) 0 1000))) = 6 \<and>
   length clamp_stream = 8"
proof -
  have h1: "\<forall>ep \<in> set (guest_code (sim_with clamp_stream)). 1 \<le> cycles ep"
    by (simp add: sim_with_def clamp_stream_def one_packet_def)
  have h2: "0 < length (packets (fst (translateWithConstraint (sim_with clamp_stream) 0 1000)))"
    unfolding clamp_stream_packets by (simp add: clamp_stream_def)
  have h3: "branch_insn 5 \<in> set (instructions (packets (fst (translateWithConstraint (sim_with clamp_stream) 0 1000)) ! 0))"
    unfolding clamp_stream_packets by (simp add: clamp_stream_def one_packet_def)
  have h4: "type (branch_insn 5) = BRANCH" by (simp add: branch_insn_def createInstruction_def)
  have h5: "delay_slots (branch_insn 5) < 1000" by (simp add: branch_insn_def createInstruction_def)
  have len: "length (packets (fst (translateWithConstraint (sim_with clamp_stream) 0 1000))) = 6"
    unfolding clamp_stream_packets by (simp add: clamp_stream_def)
  have "next_cycles (packets (fst (translateWithConstraint (sim_with clamp_stream) 0 1000)) ! 0) 1000 = 5"
    using branch_delay_clamp [OF h1 h2 h3 h4 h5]
    unfolding clamp_stream_packets
    by (simp add: clamp_stream_def one_packet_def branch_insn_def
        createInstruction_def min_current_branch_delay_def min_delay_step_def)
  moreover have "delay_slots (branch_insn 5) < 1000 - cycles (clamp_stream ! 0)"
    by (simp add: clamp_stream_def one_packet_def branch_insn_def createInstruction_def)
  moreover have "list_all (\<lambda>ep. 1 \<le> cycles ep) (guest_code (sim_with clamp_stream))"
    using h1 by (simp add: list_all_iff)
  ultimately show ?thesis using h2 h3 h4 h5 len by (simp add: clamp_stream_def)
qed

text \<open>
  The claim as stated fails in two ways. A Branch with delay 1000 is not told apart from no
  Branch: under budget 5000 the budget after its packet is 4999, not 1000, although
  \<open>1000 < 4999\<close>. And packets that cost no cycle do not use the clamped budget up: after a
  Branch with delay 1 at position 0, the build still takes the packets at positions 1, 2
  and 3.
\<close>

theorem branch_delay_clamp_counterexample:
  "delay_slots (branch_insn 1000) < 5000 - cycles (one_packet 1 [branch_insn 1000]) \<and>
   tb_loop [one_packet 1 [branch_insn 1000]] 5000 0 [] [] =
     (4999, 1, [one_packet 1 [branch_insn 1000]],
      [\<lparr>remaining_delay = 1000, target_address = ''LOOP'', instruction_line = 1\<rparr>]) \<and>
   branch_insn 1 \<in> set (instructions (free_stream ! 0)) \<and>
   packets (fst (translateWithConstraint (sim_with free_stream) 0 1000)) = free_stream \<and>
   0 + nat (delay_slots (branch_insn 1)) < 3 \<and> 3 < length free_stream"
  by code_simp

subsection \<open>C8: what the tracker holds after a build and its budget query\<close>

text \<open>
  Claim C8, as amended. A build appends one obligation per Branch of the packets it takes,
  and the budget query that follows removes exactly the obligations whose remaining delay
  is at most 0. So after a build and its query the tracker holds the obligations with a
  positive remaining delay, those it held before the build and those of the build's
  Branches alike: they stay for the builds that follow.
\<close>

theorem tracker_after_build_and_query:
  "saved_contexts (snd (getCyclesFromPrecedingTB (snd (translateWithConstraint s start budget)))) =
     filter (\<lambda>ctx. 0 < remaining_delay ctx)
       (saved_contexts s @
        map branch_context (filter (\<lambda>insn. type insn = BRANCH)
          (concat (map instructions (packets (fst (translateWithConstraint s start budget)))))))"
  using tb_loop_saved [of "guest_code s" budget start "[]" "saved_contexts s"]
  by (simp add: saved_contexts_getCycles saved_contexts_translateWithConstraint
      packets_translateWithConstraint)

text \<open>
  The claim as stated fails: a Branch with delay 5 in the first block leaves its obligation
  in the tracker after the build and its query. The next build takes two packets without
  any Branch, and the query after it still answers 5, not the unconstrained 1000.
\<close>

theorem tracker_locality_counterexample:
  "(case translateWithConstraint (sim_with clamp_stream) 0 1000 of
      (tb0, s1) \<Rightarrow>
        (case getCyclesFromPrecedingTB s1 of
           (budget1, s2) \<Rightarrow>
             (case translateWithConstraint s2 6 budget1 of
                (tb1, s3) \<Rightarrow>
                  (case getCyclesFromPrecedingTB s3 of
                     (budget2, s4) \<Rightarrow>
                       saved_contexts s2 = [branch_context (branch_insn 5)] \<and>
                       packets tb1 = [one_packet 1 [nop_insn], one_packet 1 [nop_insn]] \<and>
                       budget2 = 5 \<and> budget2 \<noteq> 1000 \<and>
                       saved_contexts s4 = [branch_context (branch_insn 5)]))))"
  by code_simp

subsection \<open>C10: the unconstrained budget is the constant 1000\<close>

text \<open>
  Claim C10, as amended. With no pending obligation in the tracker, the budget query
  returns exactly 1000 and leaves the simulator as it is. The first build of the driver runs
  under the same budget 1000. In the builder's scan over a packet, 1000 is the result when
  the packet has no Branch, and equally when every Branch of the packet has a delay-slot
  count of 1000 or more: the budget after the packet is then its budget before minus the
  packet's cost, without clamp. So within one build, for the scan, the clamp and the extent
  of the block, a Branch with a delay of 1000 or more is not told apart from no Branch:
  removing such Branches from the packets of a stream changes neither the budget after any
  packet nor the end index and number of packets of a block built from it.
\<close>

theorem unconstrained_budget_1000:
  "(saved_contexts s = [] \<longrightarrow> getCyclesFromPrecedingTB s = (1000, s)) \<and>
   max_cycles (hd (translation_blocks (simulate_part1 VLIWSimulator_init))) = 1000 \<and>
   ((\<forall>i \<in> set (instructions ep). type i = BRANCH \<longrightarrow> 1000 \<le> delay_slots i) \<longrightarrow>
      min_current_branch_delay (instructions ep) = 1000 \<and> next_cycles ep cyc = cyc - cycles ep) \<and>
   next_cycles (strip_far_branches ep) cyc = next_cycles ep cyc \<and>
   end_ep_index (fst (translateWithConstraint (s\<lparr>guest_code := map strip_far_branches (guest_code s)\<rparr>)
                        start budget)) =
     end_ep_index (fst (translateWithConstraint s start budget)) \<and>
   length (packets (fst (translateWithConstraint (s\<lparr>guest_code := map strip_far_branches (guest_code s)\<rparr>)
                           start budget))) =
     length (packets (fst (translateWithConstraint s start budget)))"
proof -
  let ?s' = "s\<lparr>guest_code := map strip_far_branches (guest_code s)\<rparr>"
  let ?r = "tb_loop (guest_code s) budget start [] (saved_contexts s)"
  let ?r' = "tb_loop (map strip_far_branches (guest_code s)) budget start [] (saved_contexts s)"
  have a: "saved_contexts s = [] \<longrightarrow> getCyclesFromPrecedingTB s = (1000, s)"
    by (simp add: getCyclesFromPrecedingTB_def)
  have c: "(\<forall>i \<in> set (instructions ep). type i = BRANCH \<longrightarrow> 1000 \<le> delay_slots i) \<longrightarrow>
      min_current_branch_delay (instructions ep) = 1000 \<and> next_cycles ep cyc = cyc - cycles ep"
    by (simp add: min_current_branch_delay_no_near next_cycles_def)
  have idx: "fst (snd ?r') = fst (snd ?r)"
    using tb_loop_strip [of "guest_code s" budget start "[]" "saved_contexts s" "[]" "saved_contexts s"]
    by simp
  have e: "end_ep_index (fst (translateWithConstraint ?s' start budget)) =
           end_ep_index (fst (translateWithConstraint s start budget))"
    using idx by (simp add: end_ep_index_translateWithConstraint)
  have "fst (snd ?r) + int (length ([] :: ExecutePacket list)) = start + int (length (fst (snd (snd ?r))))"
    by (rule tb_loop_index)
  moreover
  have "fst (snd ?r') + int (length ([] :: ExecutePacket list)) = start + int (length (fst (snd (snd ?r'))))"
    by (rule tb_loop_index)
  ultimately have "length (fst (snd (snd ?r'))) = length (fst (snd (snd ?r)))"
    using idx by simp
  then have l: "length (packets (fst (translateWithConstraint ?s' start budget))) =
           length (packets (fst (translateWithConstraint s start budget)))"
    by (simp add: packets_translateWithConstraint)
  from a c e l show ?thesis
    by (simp only: part1_first_budget next_cycles_strip simp_thms)
qed

text \<open>
  The theorem at the simulator as constructed, whose tracker is empty, and at a one-cycle
  packet holding a Branch with delay 1000, under a budget of 5000.
\<close>

theorem unconstrained_budget_1000_witness:
  "saved_contexts VLIWSimulator_init = [] \<and>
   getCyclesFromPrecedingTB VLIWSimulator_init = (1000, VLIWSimulator_init) \<and>
   list_all (\<lambda>i. type i \<noteq> BRANCH \<or> 1000 \<le> delay_slots i)
     (instructions (one_packet 1 [branch_insn 1000])) \<and>
   min_current_branch_delay (instructions (one_packet 1 [branch_insn 1000])) = 1000 \<and>
   next_cycles (one_packet 1 [branch_insn 1000]) 5000 = 4999"
proof -
  have h1: "saved_contexts VLIWSimulator_init = []"
    by (simp add: VLIWSimulator_init_def)
  have h2: "\<forall>i \<in> set (instructions (one_packet 1 [branch_insn 1000])). type i = BRANCH \<longrightarrow> 1000 \<le> delay_slots i"
    by (simp add: one_packet_def branch_insn_def createInstruction_def)
  have h2': "list_all (\<lambda>i. type i \<noteq> BRANCH \<or> 1000 \<le> delay_slots i)
     (instructions (one_packet 1 [branch_insn 1000]))"
    by (simp add: one_packet_def branch_insn_def createInstruction_def)
  from unconstrained_budget_1000 [of VLIWSimulator_init "one_packet 1 [branch_insn 1000]" 5000 0 0] h1 h2
  have "getCyclesFromPrecedingTB VLIWSimulator_init = (1000, VLIWSimulator_init) \<and>
        min_current_branch_delay (instructions (one_packet 1 [branch_insn 1000])) = 1000 \<and>
        next_cycles (one_packet 1 [branch_insn 1000]) 5000 =
          5000 - cycles (one_packet 1 [branch_insn 1000])"
    by blast
  with h1 h2' show ?thesis by (simp add: one_packet_def)
qed

text \<open>
  The claim as stated, with such a Branch not told apart from no Branch at all, fails
  across builds: the builder records the Branch in the tracker whatever its delay, and the
  next budget query returns that delay. With a Branch of delay 5000 in the first packet the
  query after the first block answers 5000 and the second block takes two packets; with the
  Branch removed the query answers 1000 and the second block takes one.
\<close>

theorem unconstrained_budget_1000_counterexample:
  "far_branch (branch_insn 5000) \<and>
   (case translateWithConstraint (sim_with far_stream) 0 1000 of
      (tb0, s1) \<Rightarrow>
        (case getCyclesFromPrecedingTB (push_tb tb0 s1) of
           (budget, s2) \<Rightarrow>
             (case translateWithConstraint s2 (getNextStartEP s2) budget of
                (tb1, s3) \<Rightarrow>
                  length (packets tb0) = 2 \<and> budget = 5000 \<and> getNextStartEP s2 = 2 \<and>
                  length (packets tb1) = 2))) \<and>
   (case translateWithConstraint (sim_with (map strip_far_branches far_stream)) 0 1000 of
      (tb0, s1) \<Rightarrow>
        (case getCyclesFromPrecedingTB (push_tb tb0 s1) of
           (budget, s2) \<Rightarrow>
             (case translateWithConstraint s2 (getNextStartEP s2) budget of
                (tb1, s3) \<Rightarrow>
                  length (packets tb0) = 2 \<and> budget = 1000 \<and> getNextStartEP s2 = 2 \<and>
                  length (packets tb1) = 1)))"
  by code_simp

subsection \<open>C9: reordering twice\<close>


subsection \<open>C4: what reorder returns\<close>

text \<open>
  Claim C4, as amended. For every execute packet, \<open>reorder\<close> returns the packet with the same
  cycle cost and number whose instructions are the non-Store instructions, unchanged and in
  their original relative order, followed by one Store per original Store in their original
  relative order. Each of these Stores is built anew: its type is Store, its mnemonic is
  \<open>STW\<close>, its unit, operands and line are those of the original, its predicate is empty; its
  delay slots and co-issued flag are not taken from the original. In particular
  \<open>[Store X, Load Y (co-issued)]\<close> becomes \<open>[Load Y, Store X]\<close> with the Load unchanged.
\<close>

theorem reorder_characterization:
  "instructions (reorder u ep) =
     filter (\<lambda>i. type i \<noteq> STORE) (instructions ep) @
     map (\<lambda>(j, i). \<lparr>type = STORE, mnemonic = ''STW'', unit = unit i, delay_slots = fst (u j),
                     predicate = [], operands = operands i, line_num = line_num i,
                     parallel = snd (u j)\<rparr>)
       (enumerate 0 (filter (\<lambda>i. type i = STORE) (instructions ep))) \<and>
   cycles (reorder u ep) = cycles ep \<and> ep_num (reorder u ep) = ep_num ep \<and>
   instructions (reorder u (parallel_ep d1 d2)) =
     [\<lparr>type = LOAD, mnemonic = ''LDW'', unit = ''.D1'', delay_slots = d2, predicate = [],
       operands = ''*A1++, A2'', line_num = 2, parallel = True\<rparr>,
      \<lparr>type = STORE, mnemonic = ''STW'', unit = ''.D2'', delay_slots = fst (u 0), predicate = [],
       operands = ''B2, *B0++'', line_num = 1, parallel = snd (u 0)\<rparr>]"
proof -
  have "instructions (reorder u (parallel_ep d1 d2)) =
     [\<lparr>type = LOAD, mnemonic = ''LDW'', unit = ''.D1'', delay_slots = d2, predicate = [],
       operands = ''*A1++, A2'', line_num = 2, parallel = True\<rparr>,
      \<lparr>type = STORE, mnemonic = ''STW'', unit = ''.D2'', delay_slots = fst (u 0), predicate = [],
       operands = ''B2, *B0++'', line_num = 1, parallel = snd (u 0)\<rparr>]"
    by (simp add: instructions_reorder parallel_ep_def rebuilt_def)
  moreover have "cycles (reorder u ep) = cycles ep \<and> ep_num (reorder u ep) = ep_num ep"
    by (simp add: reorder_eq)
  moreover have "instructions (reorder u ep) =
     filter (\<lambda>i. type i \<noteq> STORE) (instructions ep) @
     map (\<lambda>(j, i). \<lparr>type = STORE, mnemonic = ''STW'', unit = unit i, delay_slots = fst (u j),
                     predicate = [], operands = operands i, line_num = line_num i,
                     parallel = snd (u j)\<rparr>)
       (enumerate 0 (filter (\<lambda>i. type i = STORE) (instructions ep)))"
    using instructions_reorder [of u ep] by (simp add: rebuilt_def)
  ultimately show ?thesis by blast
qed

text \<open>
  The claim as stated, with every field of every instruction preserved, fails for a
  predicated half-word Store: the Store that comes out has the mnemonic \<open>STW\<close> and no
  predicate, and the Store that went in is not among the instructions of the result.
\<close>

theorem reorder_fields_counterexample:
  "sth_insn \<in> set (instructions (one_packet 1 [sth_insn, load_insn])) \<and>
   sth_insn \<notin> set (instructions (reorder zero_store (one_packet 1 [sth_insn, load_insn]))) \<and>
   instructions (reorder zero_store (one_packet 1 [sth_insn, load_insn])) =
     [load_insn, sth_insn\<lparr>mnemonic := ''STW'', predicate := []\<rparr>]"
  by code_simp

subsection \<open>C7: the boundary of the nested kernel\<close>

text \<open>
  Claim C7, as amended. With the kernel-start index set, the nested-loop kernel block holds
  exactly the packets from that index up to, and excluding, the first packet that contains
  a Branch, without the packets among them that contain an SPMASK marker, whether the marker
  is alone in its packet or not.
\<close>

theorem nested_kernel_boundary:
  assumes "0 \<le> sploop_start_index s"
  shows "packets (fst (translateNestedInner U s)) =
           filter (\<lambda>ep. \<not> has_spmask ep)
             (takeWhile (\<lambda>ep. \<not> has_branch ep) (drop (nat (sploop_start_index s)) (guest_code s)))"
  using assms by (simp add: translateNestedInner_def new_phase_tb_def nested_inner_scan_eq)

text \<open>
  The theorem at the nested stream of the driver: the kernel block holds the packets
  numbered 7 to 10, up to the packet 11 with the Branch.
\<close>

theorem nested_kernel_boundary_witness:
  "0 \<le> sploop_start_index (parseNestedSoftwarePipelinedLoop VLIWSimulator_init) \<and>
   map ep_num (packets (fst (translateNestedInner zero_tb (parseNestedSoftwarePipelinedLoop VLIWSimulator_init))))
     = [7, 8, 9, 10]"
proof -
  have h: "0 \<le> sploop_start_index (parseNestedSoftwarePipelinedLoop VLIWSimulator_init)"
    by code_simp
  have "map ep_num (filter (\<lambda>ep. \<not> has_spmask ep)
             (takeWhile (\<lambda>ep. \<not> has_branch ep)
                (drop (nat (sploop_start_index (parseNestedSoftwarePipelinedLoop VLIWSimulator_init)))
                   (guest_code (parseNestedSoftwarePipelinedLoop VLIWSimulator_init))))) = [7, 8, 9, 10]"
    by code_simp
  with nested_kernel_boundary [OF h, of zero_tb] h show ?thesis by simp
qed

text \<open>
  The claim as stated passes over the packets that contain only an SPMASK marker. The code
  also passes over a packet in which a Load is issued with the marker: the packet has no
  Branch and holds more than the marker, yet the block is left with the second packet alone.
\<close>

theorem nested_kernel_boundary_counterexample:
  "guest_code spmask_sim = [one_packet 1 [spmask_insn, load_insn], one_packet 1 [nop_insn]] \<and>
   sploop_start_index spmask_sim = 0 \<and>
   \<not> has_branch (one_packet 1 [spmask_insn, load_insn]) \<and>
   \<not> has_branch (one_packet 1 [nop_insn]) \<and>
   type load_insn = LOAD \<and>
   packets (fst (translateNestedInner zero_tb spmask_sim)) = [one_packet 1 [nop_insn]]"
  by code_simp

subsection \<open>C6: the counters of the phase machines\<close>




subsection \<open>C2: each phase is translated once in a run\<close>

text \<open>
  Claim C2, as amended. In one run of a phase machine each phase label is translated at
  most once. For the single-loop machine a run is one call from state 0; for the nested
  machine it is the driver's outer loop, any number of iterations, from state 0 with A1 at
  least 1 and block ids not negative. If no block carries the machine's labels before the
  run, then after it each of these labels is carried by at most one block, and the blocks
  present before the run are still there, unchanged. Only the Overlap translation is
  preceded by a cache check: in state 2, when the search finds a block labelled
  \<open>NESTED_STATE_2\<close>, the call translates nothing. The Prolog and Kernel translations of state
  0 are not preceded by any check.
\<close>

theorem phase_translate_once:
  assumes "state s = 0" and "''LOOP_STATE_0'' \<notin> set (tb_labels s)"
    and "''LOOP_STATE_1'' \<notin> set (tb_labels s)"
    and "state t = 0" and "1 \<le> A1 t" and "0 \<le> current_tb_id t"
    and "''NESTED_STATE_0'' \<notin> set (tb_labels t)"
    and "''NESTED_STATE_1'' \<notin> set (tb_labels t)"
    and "''NESTED_STATE_2'' \<notin> set (tb_labels t)"
    and "state r = 2" and "find_tb_id ''NESTED_STATE_2'' (translation_blocks r) \<noteq> - 1"
  shows "count_list (tb_labels (translateSoftwarePipelinedLoop U s)) ''LOOP_STATE_0'' \<le> 1 \<and>
         count_list (tb_labels (translateSoftwarePipelinedLoop U s)) ''LOOP_STATE_1'' \<le> 1 \<and>
         count_list (tb_labels (nested_outer_loop U n t)) ''NESTED_STATE_0'' \<le> 1 \<and>
         count_list (tb_labels (nested_outer_loop U n t)) ''NESTED_STATE_1'' \<le> 1 \<and>
         count_list (tb_labels (nested_outer_loop U n t)) ''NESTED_STATE_2'' \<le> 1 \<and>
         prefix (translation_blocks t) (translation_blocks (nested_outer_loop U n t)) \<and>
         translation_blocks (translateNestedLoop U r) = translation_blocks r"
proof -
  have "translation_blocks (translateNestedLoop U r) = translation_blocks r"
    using assms(11) by (simp add: nested_step_blocks_2 [OF assms(10)])
  moreover from nested_outer_loop_translate_once [OF assms(4-9), of U n]
  have "count_list (tb_labels (nested_outer_loop U n t)) ''NESTED_STATE_0'' \<le> 1 \<and>
        count_list (tb_labels (nested_outer_loop U n t)) ''NESTED_STATE_1'' \<le> 1 \<and>
        count_list (tb_labels (nested_outer_loop U n t)) ''NESTED_STATE_2'' \<le> 1 \<and>
        prefix (translation_blocks t) (translation_blocks (nested_outer_loop U n t))"
    by (simp add: overlap_cached_def)
  ultimately show ?thesis
    using single_loop_translate_once [OF assms(1-3), of U] by blast
qed

text \<open>
  The theorem at the states of the driver: before the single loop, before the nested loop
  run for three iterations, and after two outer iterations, where the Overlap block is
  cached.
\<close>

theorem phase_translate_once_witness:
  "state (before_single zero_store 0 0) = 0 \<and>
   ''LOOP_STATE_0'' \<notin> set (tb_labels (before_single zero_store 0 0)) \<and>
   ''LOOP_STATE_1'' \<notin> set (tb_labels (before_single zero_store 0 0)) \<and>
   state (before_nested zero_tb zero_store 0 0) = 0 \<and>
   1 \<le> A1 (before_nested zero_tb zero_store 0 0) \<and>
   0 \<le> current_tb_id (before_nested zero_tb zero_store 0 0) \<and>
   ''NESTED_STATE_0'' \<notin> set (tb_labels (before_nested zero_tb zero_store 0 0)) \<and>
   ''NESTED_STATE_1'' \<notin> set (tb_labels (before_nested zero_tb zero_store 0 0)) \<and>
   ''NESTED_STATE_2'' \<notin> set (tb_labels (before_nested zero_tb zero_store 0 0)) \<and>
   state (outer_iteration zero_tb zero_store 0 0 2) = 2 \<and>
   find_tb_id ''NESTED_STATE_2'' (translation_blocks (outer_iteration zero_tb zero_store 0 0 2)) \<noteq> - 1 \<and>
   count_list (tb_labels (translateSoftwarePipelinedLoop zero_tb (before_single zero_store 0 0)))
     ''LOOP_STATE_0'' \<le> 1 \<and>
   count_list (tb_labels (nested_outer_loop zero_tb 3 (before_nested zero_tb zero_store 0 0)))
     ''NESTED_STATE_2'' \<le> 1 \<and>
   translation_blocks (translateNestedLoop zero_tb (outer_iteration zero_tb zero_store 0 0 2)) =
     translation_blocks (outer_iteration zero_tb zero_store 0 0 2)"
proof -
  have h1: "state (before_single zero_store 0 0) = 0"
    and h2: "''LOOP_STATE_0'' \<notin> set (tb_labels (before_single zero_store 0 0))"
    and h3: "''LOOP_STATE_1'' \<notin> set (tb_labels (before_single zero_store 0 0))"
    by code_simp+
  have h4: "state (before_nested zero_tb zero_store 0 0) = 0"
    and h5: "1 \<le> A1 (before_nested zero_tb zero_store 0 0)"
    and h6: "0 \<le> current_tb_id (before_nested zero_tb zero_store 0 0)"
    and h7: "''NESTED_STATE_0'' \<notin> set (tb_labels (before_nested zero_tb zero_store 0 0))"
    and h8: "''NESTED_STATE_1'' \<notin> set (tb_labels (before_nested zero_tb zero_store 0 0))"
    and h9: "''NESTED_STATE_2'' \<notin> set (tb_labels (before_nested zero_tb zero_store 0 0))"
    by code_simp+
  have h10: "state (outer_iteration zero_tb zero_store 0 0 2) = 2"
    and h11: "find_tb_id ''NESTED_STATE_2''
                (translation_blocks (outer_iteration zero_tb zero_store 0 0 2)) \<noteq> - 1"
    by code_simp+
  from phase_translate_once [OF h1 h2 h3 h4 h5 h6 h7 h8 h9 h10 h11, of zero_tb 3]
    h1 h2 h3 h4 h5 h6 h7 h8 h9 h10 h11
  show ?thesis by blast
qed

text \<open>
  The claim as stated, with a cache check before every translation, fails when a machine is
  asked again after its run. A second call of the single-loop machine translates the
  Prolog label again. After the whole simulation the nested machine is back in state 0, and
  one more call translates its Prolog and its Kernel again: two blocks per label.
\<close>

theorem phase_translate_once_counterexample:
  "tb_labels (translateSoftwarePipelinedLoop zero_tb
      (translateSoftwarePipelinedLoop zero_tb (single_start VLIWSimulator_init))) =
     [''LOOP_STATE_0'', ''LOOP_STATE_1'', ''LOOP_STATE_0''] \<and>
   state (simulateExecution zero_tb zero_store 0 0) = 0 \<and>
   tb_labels (simulateExecution zero_tb zero_store 0 0) =
     [[], [], [], ''LOOP_STATE_0'', ''LOOP_STATE_1'',
      ''NESTED_STATE_0'', ''NESTED_STATE_1'', ''NESTED_STATE_2''] \<and>
   tb_labels (translateNestedLoop zero_tb (simulateExecution zero_tb zero_store 0 0)) =
     [[], [], [], ''LOOP_STATE_0'', ''LOOP_STATE_1'',
      ''NESTED_STATE_0'', ''NESTED_STATE_1'', ''NESTED_STATE_2'',
      ''NESTED_STATE_0'', ''NESTED_STATE_1'']"
  by code_simp

subsection \<open>C5: the nested-loop scenario of the driver\<close>

text \<open>
  Claim C5. The driver starts the nested machine with ILC 7, RILC 7, A1 3 in state 0. The
  first outer iteration translates the Prolog block (id 5) and the Kernel block (id 6),
  executes the Prolog block once and the Kernel block six times, reloads ILC to 7,
  decrements A1 to 2 and enters state 2. The second outer iteration translates the Overlap
  block (id 7), once, leaving the earlier blocks as they are; the third translates nothing.
  Both execute the Overlap block, the Prolog block and six times the Kernel block. After
  the third, A1 is 0 and the machine is back in state 0, the end condition of the driver,
  whose result is the state after exactly these three iterations.
\<close>

theorem nested_scenario:
  "ILC (outer_iteration U u d1 d2 0) = 7 \<and> RILC (outer_iteration U u d1 d2 0) = 7 \<and>
   A1 (outer_iteration U u d1 d2 0) = 3 \<and> state (outer_iteration U u d1 d2 0) = 0 \<and>
   map (\<lambda>tb. (tb_id tb, start_label tb)) (translation_blocks (outer_iteration U u d1 d2 1)) =
     map (\<lambda>tb. (tb_id tb, start_label tb)) (translation_blocks (outer_iteration U u d1 d2 0)) @
     [(5, ''NESTED_STATE_0''), (6, ''NESTED_STATE_1'')] \<and>
   exec_log (outer_iteration U u d1 d2 1) =
     exec_log (outer_iteration U u d1 d2 0) @ Executing 5 # replicate 6 (Executing 6) \<and>
   ILC (outer_iteration U u d1 d2 1) = 7 \<and> A1 (outer_iteration U u d1 d2 1) = 2 \<and>
   state (outer_iteration U u d1 d2 1) = 2 \<and>
   map (\<lambda>tb. (tb_id tb, start_label tb)) (translation_blocks (outer_iteration U u d1 d2 2)) =
     map (\<lambda>tb. (tb_id tb, start_label tb)) (translation_blocks (outer_iteration U u d1 d2 1)) @
     [(7, ''NESTED_STATE_2'')] \<and>
   prefix (translation_blocks (outer_iteration U u d1 d2 1))
     (translation_blocks (outer_iteration U u d1 d2 2)) \<and>
   exec_log (outer_iteration U u d1 d2 2) =
     exec_log (outer_iteration U u d1 d2 1) @
     Executing 7 # Executing 5 # replicate 6 (Executing 6) \<and>
   ILC (outer_iteration U u d1 d2 2) = 7 \<and> A1 (outer_iteration U u d1 d2 2) = 1 \<and>
   state (outer_iteration U u d1 d2 2) = 2 \<and>
   translation_blocks (outer_iteration U u d1 d2 3) = translation_blocks (outer_iteration U u d1 d2 2) \<and>
   exec_log (outer_iteration U u d1 d2 3) =
     exec_log (outer_iteration U u d1 d2 2) @
     Executing 7 # Executing 5 # replicate 6 (Executing 6) \<and>
   ILC (outer_iteration U u d1 d2 3) = 7 \<and> A1 (outer_iteration U u d1 d2 3) = 0 \<and>
   state (outer_iteration U u d1 d2 3) = 0 \<and>
   simulateExecution U u d1 d2 = outer_iteration U u d1 d2 3"
proof -
  have c0: "(ILC (outer_iteration U u d1 d2 0), RILC (outer_iteration U u d1 d2 0),
             A1 (outer_iteration U u d1 d2 0), state (outer_iteration U u d1 d2 0)) = (7, 7, 3, 0)"
    by code_simp
  have c1: "(ILC (outer_iteration U u d1 d2 1), A1 (outer_iteration U u d1 d2 1),
             state (outer_iteration U u d1 d2 1)) = (7, 2, 2)"
    by code_simp
  have c2: "(ILC (outer_iteration U u d1 d2 2), A1 (outer_iteration U u d1 d2 2),
             state (outer_iteration U u d1 d2 2)) = (7, 1, 2)"
    by code_simp
  have c3: "(ILC (outer_iteration U u d1 d2 3), A1 (outer_iteration U u d1 d2 3),
             state (outer_iteration U u d1 d2 3)) = (7, 0, 0)"
    by code_simp
  have b1: "map (\<lambda>tb. (tb_id tb, start_label tb)) (translation_blocks (outer_iteration U u d1 d2 1)) =
     map (\<lambda>tb. (tb_id tb, start_label tb)) (translation_blocks (outer_iteration U u d1 d2 0)) @
     [(5, ''NESTED_STATE_0''), (6, ''NESTED_STATE_1'')]"
    by code_simp
  have b2: "map (\<lambda>tb. (tb_id tb, start_label tb)) (translation_blocks (outer_iteration U u d1 d2 2)) =
     map (\<lambda>tb. (tb_id tb, start_label tb)) (translation_blocks (outer_iteration U u d1 d2 1)) @
     [(7, ''NESTED_STATE_2'')]"
    by code_simp
  have st1: "state (outer_iteration U u d1 d2 1) = 2" using c1 by simp
  have "outer_iteration U u d1 d2 2 = translateNestedLoop U (outer_iteration U u d1 d2 1)"
    by (simp add: outer_iteration_def numeral_2_eq_2)
  then have p2: "prefix (translation_blocks (outer_iteration U u d1 d2 1))
     (translation_blocks (outer_iteration U u d1 d2 2))"
    using nested_step_prefix_2 [OF st1, of U] by simp
  have b3: "translation_blocks (outer_iteration U u d1 d2 3) =
            translation_blocks (outer_iteration U u d1 d2 2)"
    by code_simp
  have e1: "exec_log (outer_iteration U u d1 d2 1) =
     exec_log (outer_iteration U u d1 d2 0) @ Executing 5 # replicate 6 (Executing 6)"
    by code_simp
  have e2: "exec_log (outer_iteration U u d1 d2 2) =
     exec_log (outer_iteration U u d1 d2 1) @
     Executing 7 # Executing 5 # replicate 6 (Executing 6)"
    by code_simp
  have e3: "exec_log (outer_iteration U u d1 d2 3) =
     exec_log (outer_iteration U u d1 d2 2) @
     Executing 7 # Executing 5 # replicate 6 (Executing 6)"
    by code_simp
  have d: "simulateExecution U u d1 d2 = outer_iteration U u d1 d2 3"
    by code_simp
  from c0 c1 c2 c3 show ?thesis
    unfolding prod.inject
    using b1 b2 p2 b3 e1 e2 e3 d by blast
qed

end
